theory Spec2Isabelle
  imports Complex_Main "HOL-Library.AList"
begin

section \<open>Values exchanged with clients\<close>

text \<open>
  Every frame is JSON text. A decoded frame and every outbound envelope is a JSON value;
  a Python \<open>dict\<close> is an association list in insertion order, read with \<open>map_of\<close>,
  assigned with \<open>AList.update\<close> (an existing key keeps its place, a new key goes last)
  and deleted from with \<open>AList.delete\<close>. Numbers are relayed, never computed with, so
  integers stand for them.
\<close>

datatype json =
    JNull
  | JBool bool
  | JInt int
  | JStr string
  | JArr "json list"
  | JObj "(string \<times> json) list"

text \<open>\<open>d.get(key, default)\<close> on a dict.\<close>

definition dict_get :: "('k \<times> 'v) list \<Rightarrow> 'k \<Rightarrow> 'v \<Rightarrow> 'v" where
  "dict_get d k dflt = (case map_of d k of None \<Rightarrow> dflt | Some v \<Rightarrow> v)"

text \<open>The exceptions that the modelled code can raise or has to handle.\<close>

datatype exn =
    WebSocketDisconnect
  | KeyError
  | ValueError
  | AttributeError
  | JSONDecodeError
  | RuntimeError

section \<open>The connection manager (app/websockets/manager.py)\<close>

type_synonym websocket = nat

record user =
  usr_id :: int
  usr_username :: string

record user_info =
  info_user_id :: int
  info_username :: string
  info_project_id :: int

text \<open>
  The three dictionaries of \<open>ConnectionManager\<close>, and with them the state of the
  transport: \<open>sent\<close>, the frames that \<open>send_text\<close> has delivered so far, oldest first,
  each with the connection it went to; and \<open>accepted\<close>, the connections on which
  \<open>accept\<close> has been called.
\<close>

record manager =
  active_connections :: "(int \<times> websocket list) list"
  connection_users :: "(websocket \<times> user_info) list"
  user_cursors :: "(int \<times> (int \<times> (string \<times> json) list) list) list"
  sent :: "(websocket \<times> json) list"
  accepted :: "websocket list"

definition init :: manager where
  "init = \<lparr>active_connections = [], connection_users = [], user_cursors = [], sent = [],
            accepted = []\<rparr>"

definition colors :: "string list" where
  "colors = [''#FF6B6B'', ''#4ECDC4'', ''#45B7D1'', ''#96CEB4'', ''#FFEAA7'',
             ''#DDA0DD'', ''#98D8C8'', ''#F7DC6F'', ''#BB8FCE'', ''#85C1E9'']"

definition generate_user_color :: "int \<Rightarrow> string" where
  "generate_user_color uid = colors ! nat (uid mod int (length colors))"

text \<open>
  \<open>websocket.send_text\<close>. Whether a write to a connection raises is decided by the
  environment: \<open>fails w\<close> is the exception a write to \<open>w\<close> raises, if any.
\<close>

definition send_text ::
  "(websocket \<Rightarrow> exn option) \<Rightarrow> websocket \<Rightarrow> json \<Rightarrow> manager \<Rightarrow> exn option \<times> manager" where
  "send_text fails websocket message s =
     (case fails websocket of
        None \<Rightarrow> (None, s\<lparr>sent := sent s @ [(websocket, message)]\<rparr>)
      | Some e \<Rightarrow> (Some e, s))"

text \<open>
  \<open>websocket.accept\<close>, the handshake. The framework takes it once for a connection: a
  second \<open>accept\<close> on the same connection raises \<open>RuntimeError\<close>.
\<close>

definition accept :: "websocket \<Rightarrow> manager \<Rightarrow> exn option \<times> manager" where
  "accept websocket s =
     (if websocket \<in> set (accepted s) then (Some RuntimeError, s)
      else (None, s\<lparr>accepted := accepted s @ [websocket]\<rparr>))"

text \<open>
  \<open>disconnect\<close>. A raised exception is returned with the state as it was left:
  \<open>list.remove\<close> raises \<open>ValueError\<close> for an absent element and \<open>del\<close> raises
  \<open>KeyError\<close> for an absent key.
\<close>

definition remove_from_active :: "websocket \<Rightarrow> int \<Rightarrow> manager \<Rightarrow> exn option \<times> manager" where
  "remove_from_active websocket project_id s =
     (case map_of (active_connections s) project_id of
        None \<Rightarrow> (None, s)
      | Some conns \<Rightarrow>
          if websocket \<notin> set conns then (Some ValueError, s)
          else
            let s1 = s\<lparr>active_connections :=
                        AList.update project_id (remove1 websocket conns) (active_connections s)\<rparr>
            in if remove1 websocket conns = [] then
                 let s2 = s1\<lparr>active_connections := AList.delete project_id (active_connections s1)\<rparr>
                 in if map_of (user_cursors s2) project_id = None then (Some KeyError, s2)
                    else (None, s2\<lparr>user_cursors := AList.delete project_id (user_cursors s2)\<rparr>)
               else (None, s1))"

definition remove_user_cursor :: "int \<Rightarrow> int \<Rightarrow> manager \<Rightarrow> manager" where
  "remove_user_cursor project_id uid s =
     (case map_of (user_cursors s) project_id of
        None \<Rightarrow> s
      | Some cursors \<Rightarrow>
          if map_of cursors uid = None then s
          else s\<lparr>user_cursors := AList.update project_id (AList.delete uid cursors) (user_cursors s)\<rparr>)"

definition disconnect :: "websocket \<Rightarrow> manager \<Rightarrow> exn option \<times> manager" where
  "disconnect websocket s =
     (case map_of (connection_users s) websocket of
        None \<Rightarrow> (None, s)
      | Some user_info \<Rightarrow>
          (case remove_from_active websocket (info_project_id user_info) s of
             (Some e, s1) \<Rightarrow> (Some e, s1)
           | (None, s1) \<Rightarrow>
               let s2 = remove_user_cursor (info_project_id user_info) (info_user_id user_info) s1
               in (None, s2\<lparr>connection_users := AList.delete websocket (connection_users s2)\<rparr>)))"

text \<open>\<open>send_personal_message\<close> swallows the exception of a failed write.\<close>

definition send_personal_message ::
  "(websocket \<Rightarrow> exn option) \<Rightarrow> websocket \<Rightarrow> json \<Rightarrow> manager \<Rightarrow> manager" where
  "send_personal_message fails websocket message s = snd (send_text fails websocket message s)"

text \<open>
  \<open>broadcast_to_project\<close>: the delivery loop over the room's connection list, which
  collects the connections whose write raised, then the loop that disconnects them.
\<close>

fun broadcast_loop ::
  "(websocket \<Rightarrow> exn option) \<Rightarrow> json \<Rightarrow> websocket option \<Rightarrow> websocket list \<Rightarrow>
   websocket list \<Rightarrow> manager \<Rightarrow> websocket list \<times> manager" where
  "broadcast_loop fails message exclude_websocket [] disconnected_websockets s =
     (disconnected_websockets, s)"
| "broadcast_loop fails message exclude_websocket (websocket # rest) disconnected_websockets s =
     (if Some websocket = exclude_websocket
      then broadcast_loop fails message exclude_websocket rest disconnected_websockets s
      else case send_text fails websocket message s of
             (None, s1) \<Rightarrow>
               broadcast_loop fails message exclude_websocket rest disconnected_websockets s1
           | (Some e, s1) \<Rightarrow>
               broadcast_loop fails message exclude_websocket rest
                 (disconnected_websockets @ [websocket]) s1)"

fun cleanup_loop :: "websocket list \<Rightarrow> manager \<Rightarrow> exn option \<times> manager" where
  "cleanup_loop [] s = (None, s)"
| "cleanup_loop (websocket # rest) s =
     (case disconnect websocket s of
        (Some e, s1) \<Rightarrow> (Some e, s1)
      | (None, s1) \<Rightarrow> cleanup_loop rest s1)"

definition broadcast_to_project ::
  "(websocket \<Rightarrow> exn option) \<Rightarrow> int \<Rightarrow> json \<Rightarrow> websocket option \<Rightarrow> manager \<Rightarrow>
   exn option \<times> manager" where
  "broadcast_to_project fails project_id message exclude_websocket s =
     (case map_of (active_connections s) project_id of
        None \<Rightarrow> (None, s)
      | Some conns \<Rightarrow>
          (case broadcast_loop fails message exclude_websocket conns [] s of
             (disconnected_websockets, s1) \<Rightarrow> cleanup_loop disconnected_websockets s1))"

text \<open>
  \<open>connect\<close>. It begins with \<open>websocket.accept()\<close>, whose exception leaves it before
  any dictionary is touched. \<open>register\<close> is the part of \<open>connect\<close> between the handshake
  and the first write. The cursor that the \<open>user_joined\<close> envelope carries is read back
  from the entry that \<open>register\<close> has just assigned, so it is \<open>initial_cursor\<close>.
\<close>

definition initial_cursor :: "user \<Rightarrow> (string \<times> json) list" where
  "initial_cursor u =
     [(''x'', JInt 0), (''y'', JInt 0), (''username'', JStr (usr_username u)),
      (''color'', JStr (generate_user_color (usr_id u)))]"

definition user_joined :: "user \<Rightarrow> (string \<times> json) list \<Rightarrow> json" where
  "user_joined u cursor =
     JObj [(''type'', JStr ''user_joined''),
           (''user'', JObj [(''id'', JInt (usr_id u)), (''username'', JStr (usr_username u)),
                            (''cursor'', JObj cursor)])]"

text \<open>
  The list comprehension of \<open>project_state\<close> over the items of the room's presence map;
  \<open>cursor_data["username"]\<close> raises \<open>KeyError\<close> when the key is absent (\<open>None\<close> here).
\<close>

fun active_users :: "(int \<times> (string \<times> json) list) list \<Rightarrow> json list option" where
  "active_users [] = Some []"
| "active_users ((uid, cursor_data) # rest) =
     (case map_of cursor_data ''username'' of
        None \<Rightarrow> None
      | Some name \<Rightarrow>
          (case active_users rest of
             None \<Rightarrow> None
           | Some users \<Rightarrow>
               Some (JObj [(''id'', JInt uid), (''username'', name), (''cursor'', JObj cursor_data)]
                     # users)))"

definition project_state :: "json list \<Rightarrow> json" where
  "project_state users =
     JObj [(''type'', JStr ''project_state''), (''active_users'', JArr users)]"

definition register :: "websocket \<Rightarrow> int \<Rightarrow> user \<Rightarrow> manager \<Rightarrow> exn option \<times> manager" where
  "register websocket project_id u s =
     (let s1 = (if map_of (active_connections s) project_id = None
                then s\<lparr>active_connections := AList.update project_id [] (active_connections s),
                       user_cursors := AList.update project_id [] (user_cursors s)\<rparr>
                else s)
      in case map_of (active_connections s1) project_id of
           None \<Rightarrow> (Some KeyError, s1)
         | Some conns \<Rightarrow>
             let s2 = s1\<lparr>active_connections :=
                          AList.update project_id (conns @ [websocket]) (active_connections s1)\<rparr>;
                 s3 = s2\<lparr>connection_users :=
                          AList.update websocket
                            \<lparr>info_user_id = usr_id u, info_username = usr_username u,
                             info_project_id = project_id\<rparr>
                            (connection_users s2)\<rparr>
             in case map_of (user_cursors s3) project_id of
                  None \<Rightarrow> (Some KeyError, s3)
                | Some cursors \<Rightarrow>
                    (None, s3\<lparr>user_cursors :=
                                AList.update project_id
                                  (AList.update (usr_id u) (initial_cursor u) cursors)
                                  (user_cursors s3)\<rparr>))"

definition connect ::
  "(websocket \<Rightarrow> exn option) \<Rightarrow> websocket \<Rightarrow> int \<Rightarrow> user \<Rightarrow> manager \<Rightarrow> exn option \<times> manager" where
  "connect fails websocket project_id u s =
     (case accept websocket s of
        (Some e, s0) \<Rightarrow> (Some e, s0)
      | (None, s0) \<Rightarrow>
          (case register websocket project_id u s0 of
             (Some e, s1) \<Rightarrow> (Some e, s1)
           | (None, s1) \<Rightarrow>
               (case broadcast_to_project fails project_id (user_joined u (initial_cursor u))
                       (Some websocket) s1 of
                  (Some e, s2) \<Rightarrow> (Some e, s2)
                | (None, s2) \<Rightarrow>
                    (case map_of (user_cursors s2) project_id of
                       None \<Rightarrow> (Some KeyError, s2)
                     | Some cursors \<Rightarrow>
                         (case active_users cursors of
                            None \<Rightarrow> (Some KeyError, s2)
                          | Some users \<Rightarrow>
                              (None,
                               send_personal_message fails websocket (project_state users) s2))))))"

text \<open>The handlers of inbound messages; \<open>data\<close> is the decoded message, a dict.\<close>

definition update_cursor :: "(string \<times> json) list \<Rightarrow> (string \<times> json) list \<Rightarrow> (string \<times> json) list" where
  "update_cursor data cursor =
     AList.update ''timestamp'' (dict_get data ''timestamp'' JNull)
       (AList.update ''y'' (dict_get data ''y'' (JInt 0))
          (AList.update ''x'' (dict_get data ''x'' (JInt 0)) cursor))"

definition cursor_update :: "int \<Rightarrow> (string \<times> json) list \<Rightarrow> json" where
  "cursor_update uid cursor =
     JObj [(''type'', JStr ''cursor_update''), (''user_id'', JInt uid), (''cursor'', JObj cursor)]"

definition handle_cursor_update ::
  "(websocket \<Rightarrow> exn option) \<Rightarrow> websocket \<Rightarrow> (string \<times> json) list \<Rightarrow> manager \<Rightarrow>
   exn option \<times> manager" where
  "handle_cursor_update fails websocket data s =
     (case map_of (connection_users s) websocket of
        None \<Rightarrow> (None, s)
      | Some user_info \<Rightarrow>
          (case map_of (user_cursors s) (info_project_id user_info) of
             None \<Rightarrow> (None, s)
           | Some cursors \<Rightarrow>
               (case map_of cursors (info_user_id user_info) of
                  None \<Rightarrow> (None, s)
                | Some cursor \<Rightarrow>
                    let cursor1 = update_cursor data cursor;
                        s1 = s\<lparr>user_cursors :=
                                 AList.update (info_project_id user_info)
                                   (AList.update (info_user_id user_info) cursor1 cursors)
                                   (user_cursors s)\<rparr>
                    in broadcast_to_project fails (info_project_id user_info)
                         (cursor_update (info_user_id user_info) cursor1) (Some websocket) s1)))"

definition timeline_update :: "int \<Rightarrow> (string \<times> json) list \<Rightarrow> json" where
  "timeline_update uid data =
     JObj [(''type'', JStr ''timeline_update''), (''user_id'', JInt uid), (''data'', JObj data)]"

definition handle_timeline_update ::
  "(websocket \<Rightarrow> exn option) \<Rightarrow> websocket \<Rightarrow> (string \<times> json) list \<Rightarrow> manager \<Rightarrow>
   exn option \<times> manager" where
  "handle_timeline_update fails websocket data s =
     (case map_of (connection_users s) websocket of
        None \<Rightarrow> (None, s)
      | Some user_info \<Rightarrow>
          broadcast_to_project fails (info_project_id user_info)
            (timeline_update (info_user_id user_info) data) (Some websocket) s)"

definition chat_message :: "user_info \<Rightarrow> (string \<times> json) list \<Rightarrow> json" where
  "chat_message user_info data =
     JObj [(''type'', JStr ''chat_message''), (''user_id'', JInt (info_user_id user_info)),
           (''username'', JStr (info_username user_info)),
           (''message'', dict_get data ''message'' (JStr '''')),
           (''timestamp'', dict_get data ''timestamp'' JNull)]"

definition handle_chat_message ::
  "(websocket \<Rightarrow> exn option) \<Rightarrow> websocket \<Rightarrow> (string \<times> json) list \<Rightarrow> manager \<Rightarrow>
   exn option \<times> manager" where
  "handle_chat_message fails websocket data s =
     (case map_of (connection_users s) websocket of
        None \<Rightarrow> (None, s)
      | Some user_info \<Rightarrow>
          broadcast_to_project fails (info_project_id user_info) (chat_message user_info data) None s)"

text \<open>The participant identity that an outbound envelope carries.\<close>

definition identity_of :: "json \<Rightarrow> json option \<times> json option" where
  "identity_of m =
     (case m of JObj d \<Rightarrow> (map_of d ''user_id'', map_of d ''username'') | _ \<Rightarrow> (None, None))"

section \<open>The receive loop (app/api/api_v1/endpoints/websocket.py)\<close>

definition pong :: "(string \<times> json) list \<Rightarrow> json" where
  "pong message = JObj [(''type'', JStr ''pong''), (''timestamp'', dict_get message ''timestamp'' JNull)]"

text \<open>
  The reply to an unknown type formats the value of \<open>type\<close> into its text with Python's
  \<open>str\<close>, which is not part of the repository: \<open>fmt\<close> stands for it.
\<close>

definition unknown_type_error :: "(json \<Rightarrow> string) \<Rightarrow> json \<Rightarrow> json" where
  "unknown_type_error fmt message_type =
     JObj [(''type'', JStr ''error''), (''message'', JStr (''Unknown message type: '' @ fmt message_type))]"

definition internal_error :: json where
  "internal_error = JObj [(''type'', JStr ''error''), (''message'', JStr ''Internal server error'')]"

text \<open>The \<open>if\<close>/\<open>elif\<close> chain inside the \<open>try\<close> of \<open>handle_websocket_message\<close>.\<close>

definition dispatch ::
  "(json \<Rightarrow> string) \<Rightarrow> (websocket \<Rightarrow> exn option) \<Rightarrow> websocket \<Rightarrow> (string \<times> json) list \<Rightarrow>
   manager \<Rightarrow> exn option \<times> manager" where
  "dispatch fmt fails websocket message s =
     (let message_type = dict_get message ''type'' JNull in
      if message_type = JStr ''cursor_update'' then handle_cursor_update fails websocket message s
      else if message_type = JStr ''timeline_update'' then handle_timeline_update fails websocket message s
      else if message_type = JStr ''chat_message'' then handle_chat_message fails websocket message s
      else if message_type = JStr ''ping'' then send_text fails websocket (pong message) s
      else send_text fails websocket (unknown_type_error fmt message_type) s)"

text \<open>
  \<open>handle_websocket_message\<close>: \<open>message.get\<close> is outside the \<open>try\<close> and raises
  \<open>AttributeError\<close> on a decoded value that is not a dict; an exception of the chain is
  answered with the internal-error envelope, whose own write may raise.
\<close>

definition handle_websocket_message ::
  "(json \<Rightarrow> string) \<Rightarrow> (websocket \<Rightarrow> exn option) \<Rightarrow> websocket \<Rightarrow> json \<Rightarrow> manager \<Rightarrow>
   exn option \<times> manager" where
  "handle_websocket_message fmt fails websocket message s =
     (case message of
        JObj payload \<Rightarrow>
          (case dispatch fmt fails websocket payload s of
             (None, s1) \<Rightarrow> (None, s1)
           | (Some e, s1) \<Rightarrow> send_text fails websocket internal_error s1)
      | _ \<Rightarrow> (Some AttributeError, s))"

text \<open>
  One round of the \<open>while True\<close> loop of \<open>websocket_endpoint\<close>, after the connection has
  joined. \<open>receive_text\<close> either raises \<open>WebSocketDisconnect\<close> or returns a text frame;
  the frame is given by what \<open>json.loads\<close> makes of it, \<open>None\<close> when it raises
  \<open>JSONDecodeError\<close>. The round leaves the connection in the loop (\<open>Receiving\<close>), or
  the endpoint returns after \<open>manager.disconnect\<close> (\<open>Left\<close>), or the outer handler
  closes the connection (\<open>Closed\<close>).
\<close>

datatype received = ReceiveDisconnect | ReceiveText "json option"

datatype status = Receiving | Left | Closed

definition loop_body ::
  "(json \<Rightarrow> string) \<Rightarrow> (websocket \<Rightarrow> exn option) \<Rightarrow> websocket \<Rightarrow> received \<Rightarrow> manager \<Rightarrow>
   exn option \<times> manager" where
  "loop_body fmt fails websocket r s =
     (case r of
        ReceiveDisconnect \<Rightarrow> (Some WebSocketDisconnect, s)
      | ReceiveText None \<Rightarrow> (Some JSONDecodeError, s)
      | ReceiveText (Some message) \<Rightarrow> handle_websocket_message fmt fails websocket message s)"

definition receive_round ::
  "(json \<Rightarrow> string) \<Rightarrow> (websocket \<Rightarrow> exn option) \<Rightarrow> websocket \<Rightarrow> received \<Rightarrow> manager \<Rightarrow>
   status \<times> manager" where
  "receive_round fmt fails websocket r s =
     (case loop_body fmt fails websocket r s of
        (None, s1) \<Rightarrow> (Receiving, s1)
      | (Some WebSocketDisconnect, s1) \<Rightarrow>
          (case disconnect websocket s1 of
             (None, s2) \<Rightarrow> (Left, s2)
           | (Some e, s2) \<Rightarrow> (Closed, s2))
      | (Some e, s1) \<Rightarrow> (Closed, s1))"

text \<open>
  The endpoint before its loop. It accepts the connection, refuses a missing or empty
  token and a token that \<open>validate_websocket_token\<close> turns down, each with an error
  envelope and a close, and then calls \<open>manager.connect\<close>; any exception ends in the outer
  handler, which closes the connection. What the token validation returns is the
  environment's: \<open>validate\<close> stands for it.
\<close>

definition auth_error :: "string \<Rightarrow> json" where
  "auth_error text = JObj [(''type'', JStr ''error''), (''message'', JStr text)]"

definition endpoint_join ::
  "(string \<Rightarrow> int \<Rightarrow> user option) \<Rightarrow> (websocket \<Rightarrow> exn option) \<Rightarrow> websocket \<Rightarrow> int \<Rightarrow>
   string option \<Rightarrow> manager \<Rightarrow> status \<times> manager" where
  "endpoint_join validate fails websocket project_id token s =
     (case accept websocket s of
        (Some e, s1) \<Rightarrow> (Closed, s1)
      | (None, s1) \<Rightarrow>
          (case token of
             None \<Rightarrow>
               (Closed,
                snd (send_text fails websocket (auth_error ''Authentication token required'') s1))
           | Some t \<Rightarrow>
               if t = []
               then (Closed,
                     snd (send_text fails websocket (auth_error ''Authentication token required'') s1))
               else
                 (case validate t project_id of
                    None \<Rightarrow>
                      (Closed,
                       snd (send_text fails websocket (auth_error ''Invalid authentication token'') s1))
                  | Some u \<Rightarrow>
                      (case connect fails websocket project_id u s1 of
                         (None, s2) \<Rightarrow> (Receiving, s2)
                       | (Some e, s2) \<Rightarrow> (Closed, s2)))))"

section \<open>Reordering the timeline (app/api/api_v1/endpoints/timeline.py)\<close>

record timeline_clip =
  clip_id :: int
  clip_project_id :: int
  clip_media_file_id :: "int option"
  clip_type :: string
  clip_start_time :: real
  clip_duration :: real
  clip_media_start :: "real option"
  clip_media_end :: "real option"
  clip_track_number :: int
  clip_properties :: "json option"
  clip_position :: "json option"

record project_member =
  member_project_id :: int
  member_user_id :: int
  member_role :: string

record database =
  project_members :: "project_member list"
  timeline_clips :: "timeline_clip list"

datatype http_exception = HTTPException nat string

fun assign_start_time :: "int \<Rightarrow> int \<Rightarrow> real \<Rightarrow> timeline_clip list \<Rightarrow> timeline_clip list" where
  "assign_start_time project_id cid t [] = []"
| "assign_start_time project_id cid t (clip # clips) =
     (if clip_id clip = cid \<and> clip_project_id clip = project_id
      then clip\<lparr>clip_start_time := t\<rparr> # clips
      else clip # assign_start_time project_id cid t clips)"

fun reorder_loop :: "int \<Rightarrow> nat \<Rightarrow> int list \<Rightarrow> timeline_clip list \<Rightarrow> timeline_clip list" where
  "reorder_loop project_id index [] clips = clips"
| "reorder_loop project_id index (cid # rest) clips =
     reorder_loop project_id (Suc index) rest
       (assign_start_time project_id cid (real index * 1.0) clips)"

definition reorder_timeline_clips ::
  "int \<Rightarrow> int list \<Rightarrow> int \<Rightarrow> database \<Rightarrow> http_exception + database" where
  "reorder_timeline_clips project_id clip_order current_user db =
     (case find (\<lambda>m. member_project_id m = project_id \<and> member_user_id m = current_user)
             (project_members db) of
        None \<Rightarrow> Inl (HTTPException 403 ''Insufficient permissions to edit timeline'')
      | Some member \<Rightarrow>
          if member_role member \<notin> set [''owner'', ''editor'']
          then Inl (HTTPException 403 ''Insufficient permissions to edit timeline'')
          else Inr (db\<lparr>timeline_clips := reorder_loop project_id 0 clip_order (timeline_clips db)\<rparr>))"

fun renumber :: "int \<Rightarrow> nat \<Rightarrow> int list \<Rightarrow> timeline_clip \<Rightarrow> timeline_clip" where
  "renumber project_id index [] clip = clip"
| "renumber project_id index (cid # rest) clip =
     renumber project_id (Suc index) rest
       (if clip_id clip = cid \<and> clip_project_id clip = project_id
        then clip\<lparr>clip_start_time := real index\<rparr> else clip)"

definition example_db :: database where
  "example_db =
     \<lparr>project_members = [\<lparr>member_project_id = 1, member_user_id = 7, member_role = ''editor''\<rparr>],
      timeline_clips =
        [\<lparr>clip_id = 10, clip_project_id = 1, clip_media_file_id = None, clip_type = ''video'',
          clip_start_time = 4, clip_duration = 2, clip_media_start = None, clip_media_end = None,
          clip_track_number = 0, clip_properties = None, clip_position = None\<rparr>,
         \<lparr>clip_id = 11, clip_project_id = 1, clip_media_file_id = None, clip_type = ''audio'',
          clip_start_time = 9, clip_duration = 2, clip_media_start = None, clip_media_end = None,
          clip_track_number = 1, clip_properties = None, clip_position = None\<rparr>,
         \<lparr>clip_id = 12, clip_project_id = 2, clip_media_file_id = None, clip_type = ''video'',
          clip_start_time = 5, clip_duration = 2, clip_media_start = None, clip_media_end = None,
          clip_track_number = 0, clip_properties = None, clip_position = None\<rparr>]\<rparr>"

section \<open>Reachable states of the manager\<close>

abbreviation rooms :: "manager \<Rightarrow> int \<Rightarrow> websocket list option" where
  "rooms s \<equiv> map_of (active_connections s)"

abbreviation bound :: "manager \<Rightarrow> websocket \<Rightarrow> user_info option" where
  "bound s \<equiv> map_of (connection_users s)"

abbreviation presence :: "manager \<Rightarrow> int \<Rightarrow> (int \<times> (string \<times> json) list) list option" where
  "presence s \<equiv> map_of (user_cursors s)"

text \<open>
  The states that calls of the manager's operations, and the endpoint's own writes and
  handshakes, lead to from the empty manager, each call in any environment. \<open>guard\<close>
  says which joins the callers make.
\<close>

inductive reachable :: "(manager \<Rightarrow> websocket \<Rightarrow> int \<Rightarrow> user \<Rightarrow> bool) \<Rightarrow> manager \<Rightarrow> bool"
  for guard :: "manager \<Rightarrow> websocket \<Rightarrow> int \<Rightarrow> user \<Rightarrow> bool" where
  reachable_init: "reachable guard init"
| reachable_connect:
    "reachable guard s \<Longrightarrow> guard s websocket project_id u \<Longrightarrow>
     reachable guard (snd (connect fails websocket project_id u s))"
| reachable_disconnect:
    "reachable guard s \<Longrightarrow> reachable guard (snd (disconnect websocket s))"
| reachable_cursor_update:
    "reachable guard s \<Longrightarrow> reachable guard (snd (handle_cursor_update fails websocket data s))"
| reachable_timeline_update:
    "reachable guard s \<Longrightarrow> reachable guard (snd (handle_timeline_update fails websocket data s))"
| reachable_chat_message:
    "reachable guard s \<Longrightarrow> reachable guard (snd (handle_chat_message fails websocket data s))"
| reachable_send_text:
    "reachable guard s \<Longrightarrow> reachable guard (snd (send_text fails websocket message s))"
| reachable_accept:
    "reachable guard s \<Longrightarrow> reachable guard (snd (accept websocket s))"

text \<open>
  Three callers: one that joins anything; the endpoint, which joins each connection once,
  so never one that is registered; and an endpoint whose participants hold one connection
  to a room at a time.
\<close>

definition any_join :: "manager \<Rightarrow> websocket \<Rightarrow> int \<Rightarrow> user \<Rightarrow> bool" where
  "any_join s websocket project_id u = True"

definition fresh_join :: "manager \<Rightarrow> websocket \<Rightarrow> int \<Rightarrow> user \<Rightarrow> bool" where
  "fresh_join s websocket project_id u \<longleftrightarrow> bound s websocket = None"

definition single_join :: "manager \<Rightarrow> websocket \<Rightarrow> int \<Rightarrow> user \<Rightarrow> bool" where
  "single_join s websocket project_id u \<longleftrightarrow>
     bound s websocket = None \<and>
     list_all (\<lambda>(w, i). \<not> (info_project_id i = project_id \<and> info_user_id i = usr_id u))
       (connection_users s)"

text \<open>
  The invariants. \<open>inv_rooms\<close>: the two dictionaries keyed by project have the same keys,
  no room is empty, a registered connection is in the list of its room, and a presence map
  has each participant once. \<open>inv_cursors\<close>: a cursor has its four initial keys. \<open>inv_presence\<close>: a presence entry belongs to a registered
  connection. \<open>inv_single\<close>: a registered connection has its presence entry, and no two
  connections are bound to the same participant of the same room.
\<close>

definition inv_rooms :: "manager \<Rightarrow> bool" where
  "inv_rooms s \<longleftrightarrow>
     (\<forall>p. rooms s p = None \<longleftrightarrow> presence s p = None) \<and>
     (\<forall>p conns. rooms s p = Some conns \<longrightarrow> conns \<noteq> []) \<and>
     (\<forall>w i. bound s w = Some i \<longrightarrow>
        (\<exists>conns. rooms s (info_project_id i) = Some conns \<and> w \<in> set conns)) \<and>
     (\<forall>p cursors. presence s p = Some cursors \<longrightarrow> distinct (map fst cursors))"

definition inv_cursors :: "manager \<Rightarrow> bool" where
  "inv_cursors s \<longleftrightarrow>
     (\<forall>p cursors uid c. presence s p = Some cursors \<longrightarrow> (uid, c) \<in> set cursors \<longrightarrow>
        {''x'', ''y'', ''username'', ''color''} \<subseteq> fst ` set c)"

definition inv_presence :: "manager \<Rightarrow> bool" where
  "inv_presence s \<longleftrightarrow>
     (\<forall>p cursors uid. presence s p = Some cursors \<longrightarrow> uid \<in> fst ` set cursors \<longrightarrow>
        (\<exists>w i. bound s w = Some i \<and> info_project_id i = p \<and> info_user_id i = uid))"

definition inv_single :: "manager \<Rightarrow> bool" where
  "inv_single s \<longleftrightarrow>
     (\<forall>w i. bound s w = Some i \<longrightarrow>
        (\<exists>cursors. presence s (info_project_id i) = Some cursors \<and>
                   info_user_id i \<in> fst ` set cursors)) \<and>
     (\<forall>w w' i i'. bound s w = Some i \<longrightarrow> bound s w' = Some i' \<longrightarrow>
        info_project_id i = info_project_id i' \<longrightarrow> info_user_id i = info_user_id i' \<longrightarrow> w = w')"

text \<open>
  A property of states is \<open>stable\<close> when leaving, a change of the transport's state and
  moving the cursor of a participant who has one keep it, and leaving raises nothing where
  it holds.
\<close>

definition stable :: "(manager \<Rightarrow> bool) \<Rightarrow> bool" where
  "stable P \<longleftrightarrow>
     (\<forall>s w. P s \<longrightarrow> fst (disconnect w s) = None \<and> P (snd (disconnect w s))) \<and>
     (\<forall>s x. P s \<longrightarrow> P (s\<lparr>sent := x\<rparr>)) \<and>
     (\<forall>s x. P s \<longrightarrow> P (s\<lparr>accepted := x\<rparr>)) \<and>
     (\<forall>s p cursors uid c data. P s \<longrightarrow> presence s p = Some cursors \<longrightarrow>
        map_of cursors uid = Some c \<longrightarrow>
        P (s\<lparr>user_cursors :=
               AList.update p (AList.update uid (update_cursor data c) cursors) (user_cursors s)\<rparr>))"

section \<open>Example sessions\<close>

definition alice :: user where
  "alice = \<lparr>usr_id = 1, usr_username = ''alice''\<rparr>"

definition bob :: user where
  "bob = \<lparr>usr_id = 2, usr_username = ''bob''\<rparr>"

text \<open>An environment in which every write succeeds, and one in which connection 11 is broken.\<close>

definition delivers :: "websocket \<Rightarrow> exn option" where
  "delivers w = None"

definition broken11 :: "websocket \<Rightarrow> exn option" where
  "broken11 w = (if w = 11 then Some RuntimeError else None)"

text \<open>
  Alice joins project 1 on connection 11; then Bob joins it on connection 12. Every join of
  the examples is a call of \<open>connect\<close> on a connection that has not been accepted yet.
\<close>

definition alice_joined :: manager where
  "alice_joined = snd (connect delivers 11 1 alice init)"

definition both_joined :: manager where
  "both_joined = snd (connect delivers 12 1 bob alice_joined)"

text \<open>Alice joins project 1 twice, on connections 11 and 13, then Bob on connection 12.\<close>

definition alice_twice :: manager where
  "alice_twice = snd (connect delivers 13 1 alice alice_joined)"


text \<open>Then connection 11, the first of Alice's two, leaves.\<close>

definition alice_left_once :: manager where
  "alice_left_once = snd (disconnect 11 alice_twice)"


section \<open>The example sessions, evaluated\<close>

lemmas run_simps = init_def alice_def bob_def delivers_def broken11_def
  connect_def accept_def register_def broadcast_to_project_def
  send_personal_message_def send_text_def disconnect_def remove_from_active_def remove_user_cursor_def
  initial_cursor_def user_joined_def project_state_def generate_user_color_def colors_def
  dict_get_def Let_def

lemma alice_joined_connection_users:
  "connection_users alice_joined =
     [(11, \<lparr>info_user_id = 1, info_username = ''alice'', info_project_id = 1\<rparr>)]"
  by (simp add: alice_joined_def run_simps)

lemma alice_joined_active_connections: "active_connections alice_joined = [(1, [11])]"
  by (simp add: alice_joined_def run_simps)

lemma alice_joined_accepted: "accepted alice_joined = [11]"
  by (simp add: alice_joined_def run_simps)

lemma alice_joined_user_cursors:
  "user_cursors alice_joined =
     [(1, [(1, [(''x'', JInt 0), (''y'', JInt 0), (''username'', JStr ''alice''),
                (''color'', JStr ''#4ECDC4'')])])]"
  by (simp add: alice_joined_def run_simps)

lemma disconnect_alice_joined:
  "disconnect 11 alice_joined =
     (None, alice_joined\<lparr>active_connections := [], user_cursors := [], connection_users := []\<rparr>)"
  by (simp add: disconnect_def remove_from_active_def remove_user_cursor_def Let_def
      alice_joined_connection_users alice_joined_active_connections alice_joined_user_cursors)

section \<open>Leaving twice\<close>

text \<open>
  Claim C3. Leaving with a connection that is not registered raises nothing and returns the
  state as it was, whether the connection never joined or has already left: a leave that
  succeeded makes the next leave of the same connection such a no-op.
\<close>

theorem disconnect_unregistered_noop:
  "(map_of (connection_users s) w1 = None \<longrightarrow> disconnect w1 s = (None, s)) \<and>
   (disconnect w2 s = (None, s') \<longrightarrow> disconnect w2 s' = (None, s'))"
proof (intro conjI impI)
  assume "map_of (connection_users s) w1 = None"
  then show "disconnect w1 s = (None, s)" by (simp add: disconnect_def)
next
  assume d: "disconnect w2 s = (None, s')"
  have "map_of (connection_users s') w2 = None"
    using d by (auto simp: disconnect_def Let_def AList.delete_conv' split: option.splits prod.splits)
  then show "disconnect w2 s' = (None, s')" by (simp add: disconnect_def)
qed

theorem disconnect_unregistered_noop_witness:
  "map_of (connection_users alice_joined) 12 = None \<and>
   disconnect 12 alice_joined = (None, alice_joined) \<and>
   disconnect 11 alice_joined = (None, snd (disconnect 11 alice_joined)) \<and>
   disconnect 11 (snd (disconnect 11 alice_joined)) = (None, snd (disconnect 11 alice_joined))"
proof -
  have unreg: "map_of (connection_users alice_joined) 12 = None"
    by (simp add: alice_joined_connection_users)
  have left: "disconnect 11 alice_joined = (None, snd (disconnect 11 alice_joined))"
    by (simp add: disconnect_alice_joined)
  show ?thesis
    using disconnect_unregistered_noop
      [of alice_joined 12 11 "snd (disconnect 11 alice_joined)"] unreg left
    by blast
qed

section \<open>Keepalive\<close>

text \<open>
  Claim C9. A ping from a connection whose write succeeds is answered with exactly one
  frame, a pong to that connection that echoes the timestamp of the ping (\<open>null\<close> when
  the ping has none); nothing else is written and the manager's dictionaries are unchanged,
  and the connection stays in its receive loop.
\<close>

theorem ping_pong:
  assumes "fails websocket = None" and "map_of message ''type'' = Some (JStr ''ping'')"
  shows "handle_websocket_message fmt fails websocket (JObj message) s =
           (None, s\<lparr>sent := sent s @
              [(websocket, JObj [(''type'', JStr ''pong''),
                                 (''timestamp'', case map_of message ''timestamp'' of None \<Rightarrow> JNull | Some t \<Rightarrow> t)])]\<rparr>) \<and>
         receive_round fmt fails websocket (ReceiveText (Some (JObj message))) s =
           (Receiving, s\<lparr>sent := sent s @
              [(websocket, JObj [(''type'', JStr ''pong''),
                                 (''timestamp'', case map_of message ''timestamp'' of None \<Rightarrow> JNull | Some t \<Rightarrow> t)])]\<rparr>)"
  using assms
  by (simp add: receive_round_def loop_body_def handle_websocket_message_def dispatch_def
      send_text_def pong_def dict_get_def)

theorem ping_pong_witness:
  "\<forall>fmt. handle_websocket_message fmt delivers 11
     (JObj [(''type'', JStr ''ping''), (''timestamp'', JInt 42)]) both_joined =
     (None, both_joined\<lparr>sent := sent both_joined @
        [(11, JObj [(''type'', JStr ''pong''), (''timestamp'', JInt 42)])]\<rparr>)"
proof
  fix fmt
  have ok: "delivers 11 = None" by (simp add: delivers_def)
  have ping: "map_of [(''type'', JStr ''ping''), (''timestamp'', JInt 42)] ''type'' = Some (JStr ''ping'')"
    by simp
  show "handle_websocket_message fmt delivers 11
     (JObj [(''type'', JStr ''ping''), (''timestamp'', JInt 42)]) both_joined =
     (None, both_joined\<lparr>sent := sent both_joined @
        [(11, JObj [(''type'', JStr ''pong''), (''timestamp'', JInt 42)])]\<rparr>)"
    using ping_pong [of delivers 11 "[(''type'', JStr ''ping''), (''timestamp'', JInt 42)]" fmt both_joined] ok ping
    by simp
qed

section \<open>Reordering the timeline\<close>

lemma assign_start_time_map:
  "distinct (map clip_id clips) \<Longrightarrow>
   assign_start_time p cid t clips =
     map (\<lambda>c. if clip_id c = cid \<and> clip_project_id c = p then c\<lparr>clip_start_time := t\<rparr> else c) clips"
proof (induction clips)
  case Nil
  then show ?case by simp
next
  case (Cons c clips)
  have "\<forall>d \<in> set clips. clip_id c = cid \<longrightarrow> clip_id d \<noteq> cid"
    using Cons.prems by (auto simp: image_iff)
  then have "clip_id c = cid \<Longrightarrow>
     map (\<lambda>c. if clip_id c = cid \<and> clip_project_id c = p then c\<lparr>clip_start_time := t\<rparr> else c) clips = clips"
    by (simp add: map_idI)
  with Cons show ?case by simp
qed

lemma reorder_loop_map:
  "distinct (map clip_id clips) \<Longrightarrow>
   reorder_loop p n order clips = map (renumber p n order) clips"
proof (induction order arbitrary: n clips)
  case Nil
  then show ?case by simp
next
  case (Cons cid order)
  let ?f = "\<lambda>c. if clip_id c = cid \<and> clip_project_id c = p then c\<lparr>clip_start_time := real n\<rparr> else c"
  have ids: "map clip_id (map ?f clips) = map clip_id clips" by simp
  have "reorder_loop p n (cid # order) clips = reorder_loop p (Suc n) order (map ?f clips)"
    using Cons.prems by (simp add: assign_start_time_map)
  also have "\<dots> = map (renumber p (Suc n) order) (map ?f clips)"
    using Cons.prems by (intro Cons.IH) (simp only: ids)
  finally show ?case by (simp add: comp_def)
qed

lemma renumber_unlisted:
  "clip_project_id c \<noteq> p \<or> clip_id c \<notin> set order \<Longrightarrow> renumber p n order c = c"
  by (induction order arbitrary: n) auto

lemma renumber_fields:
  "clip_id (renumber p n order c) = clip_id c \<and> clip_project_id (renumber p n order c) = clip_project_id c"
  by (induction order arbitrary: n c) auto

lemma renumber_listed:
  "clip_project_id c = p \<Longrightarrow> i < length order \<Longrightarrow> order ! i = clip_id c \<Longrightarrow>
   \<forall>j. i < j \<and> j < length order \<longrightarrow> order ! j \<noteq> clip_id c \<Longrightarrow>
   renumber p n order c = c\<lparr>clip_start_time := real (n + i)\<rparr>"
proof (induction order arbitrary: n i c)
  case Nil
  then show ?case by simp
next
  case (Cons cid order)
  show ?case
  proof (cases i)
    case 0
    have "clip_id c \<notin> set order"
    proof
      assume "clip_id c \<in> set order"
      then obtain j where "j < length order" "order ! j = clip_id c"
        by (auto simp: in_set_conv_nth)
      with Cons.prems(4) 0 show False by (auto dest: spec [of _ "Suc j"])
    qed
    with Cons.prems 0 show ?thesis by (simp add: renumber_unlisted)
  next
    case (Suc k)
    let ?c = "if clip_id c = cid \<and> clip_project_id c = p then c\<lparr>clip_start_time := real n\<rparr> else c"
    have "renumber p (Suc n) order ?c = ?c\<lparr>clip_start_time := real (Suc n + k)\<rparr>"
    proof (rule Cons.IH)
      show "clip_project_id ?c = p" using Cons.prems(1) by simp
      show "k < length order" using Cons.prems(2) Suc by simp
      show "order ! k = clip_id ?c" using Cons.prems(3) Suc by simp
      show "\<forall>j. k < j \<and> j < length order \<longrightarrow> order ! j \<noteq> clip_id ?c"
        using Cons.prems(4) Suc by (auto dest: spec [of _ "Suc j" for j])
    qed
    then show ?thesis using Suc by simp
  qed
qed


text \<open>
  Claim C10. An authorized reorder request (the caller is a member of the project with role
  owner or editor) returns without error; every clip of the target project whose id is in
  the list gets as start time its zero-based index in the list (the last one, should the id
  be listed twice); every other clip of the table, and the table's length, is unchanged, so
  an id that names no clip of the project is skipped without any effect. Start time is the
  clip's position on the timeline: the code's own comment calls it so. Clip ids are the
  table's primary key, hence distinct.
\<close>

theorem reorder_timeline_clips_renumbers:
  assumes member: "find (\<lambda>m. member_project_id m = project_id \<and> member_user_id m = current_user)
                     (project_members db) = Some member"
    and role: "member_role member = ''owner'' \<or> member_role member = ''editor''"
    and ids: "distinct (map clip_id (timeline_clips db))"
  shows "\<exists>db'. reorder_timeline_clips project_id clip_order current_user db = Inr db' \<and>
           project_members db' = project_members db \<and>
           length (timeline_clips db') = length (timeline_clips db) \<and>
           (\<forall>k<length (timeline_clips db).
              (\<forall>i<length clip_order.
                 clip_project_id (timeline_clips db ! k) = project_id \<and>
                 clip_order ! i = clip_id (timeline_clips db ! k) \<and>
                 (\<forall>j. i < j \<and> j < length clip_order \<longrightarrow> clip_order ! j \<noteq> clip_order ! i) \<longrightarrow>
                 timeline_clips db' ! k = (timeline_clips db ! k)\<lparr>clip_start_time := real i\<rparr>) \<and>
              (clip_project_id (timeline_clips db ! k) \<noteq> project_id \<or>
               clip_id (timeline_clips db ! k) \<notin> set clip_order \<longrightarrow>
                 timeline_clips db' ! k = timeline_clips db ! k))"
proof -
  let ?db' = "db\<lparr>timeline_clips := reorder_loop project_id 0 clip_order (timeline_clips db)\<rparr>"
  have res: "reorder_timeline_clips project_id clip_order current_user db = Inr ?db'"
    using member role by (auto simp: reorder_timeline_clips_def)
  have clips: "timeline_clips ?db' = map (renumber project_id 0 clip_order) (timeline_clips db)"
    using ids by (simp add: reorder_loop_map)
  have "\<forall>k<length (timeline_clips db).
          (\<forall>i<length clip_order.
             clip_project_id (timeline_clips db ! k) = project_id \<and>
             clip_order ! i = clip_id (timeline_clips db ! k) \<and>
             (\<forall>j. i < j \<and> j < length clip_order \<longrightarrow> clip_order ! j \<noteq> clip_order ! i) \<longrightarrow>
             timeline_clips ?db' ! k = (timeline_clips db ! k)\<lparr>clip_start_time := real i\<rparr>) \<and>
          (clip_project_id (timeline_clips db ! k) \<noteq> project_id \<or>
           clip_id (timeline_clips db ! k) \<notin> set clip_order \<longrightarrow>
             timeline_clips ?db' ! k = timeline_clips db ! k)"
  proof (intro allI impI conjI)
    fix k i
    assume k: "k < length (timeline_clips db)" and i: "i < length clip_order"
      and h: "clip_project_id (timeline_clips db ! k) = project_id \<and>
              clip_order ! i = clip_id (timeline_clips db ! k) \<and>
              (\<forall>j. i < j \<and> j < length clip_order \<longrightarrow> clip_order ! j \<noteq> clip_order ! i)"
    have "renumber project_id 0 clip_order (timeline_clips db ! k) =
            (timeline_clips db ! k)\<lparr>clip_start_time := real (0 + i)\<rparr>"
      using h i by (intro renumber_listed) auto
    then show "timeline_clips ?db' ! k = (timeline_clips db ! k)\<lparr>clip_start_time := real i\<rparr>"
      using k by (simp add: clips)
  next
    fix k
    assume k: "k < length (timeline_clips db)"
      and h: "clip_project_id (timeline_clips db ! k) \<noteq> project_id \<or>
              clip_id (timeline_clips db ! k) \<notin> set clip_order"
    show "timeline_clips ?db' ! k = timeline_clips db ! k"
      using k renumber_unlisted [OF h] by (simp add: clips)
  qed
  moreover have "project_members ?db' = project_members db" by simp
  moreover have "length (timeline_clips ?db') = length (timeline_clips db)"
    by (simp add: clips)
  ultimately show ?thesis using res by blast
qed

theorem reorder_timeline_clips_renumbers_witness:
  "\<exists>db'. reorder_timeline_clips 1 [11, 99, 12, 10, 11] 7 example_db = Inr db' \<and>
         length (timeline_clips db') = 3 \<and>
         clip_start_time (timeline_clips db' ! 0) = 3 \<and>
         clip_start_time (timeline_clips db' ! 1) = 4 \<and>
         timeline_clips db' ! 2 = timeline_clips example_db ! 2"
proof -
  have member: "find (\<lambda>m. member_project_id m = 1 \<and> member_user_id m = 7) (project_members example_db)
                  = Some \<lparr>member_project_id = 1, member_user_id = 7, member_role = ''editor''\<rparr>"
    by (simp add: example_db_def)
  have role: "member_role \<lparr>member_project_id = 1, member_user_id = 7, member_role = ''editor''\<rparr> = ''owner'' \<or>
              member_role \<lparr>member_project_id = 1, member_user_id = 7, member_role = ''editor''\<rparr> = ''editor''"
    by simp
  have ids: "distinct (map clip_id (timeline_clips example_db))"
    by (simp add: example_db_def)
  obtain db' where res: "reorder_timeline_clips 1 [11, 99, 12, 10, 11] 7 example_db = Inr db'"
    and len: "length (timeline_clips db') = length (timeline_clips example_db)"
    and all: "\<forall>k<length (timeline_clips example_db).
              (\<forall>i<length [11, 99, 12, 10, 11::int].
                 clip_project_id (timeline_clips example_db ! k) = 1 \<and>
                 [11, 99, 12, 10, 11] ! i = clip_id (timeline_clips example_db ! k) \<and>
                 (\<forall>j. i < j \<and> j < length [11, 99, 12, 10, 11::int] \<longrightarrow>
                      [11, 99, 12, 10, 11::int] ! j \<noteq> [11, 99, 12, 10, 11] ! i) \<longrightarrow>
                 timeline_clips db' ! k = (timeline_clips example_db ! k)\<lparr>clip_start_time := real i\<rparr>) \<and>
              (clip_project_id (timeline_clips example_db ! k) \<noteq> 1 \<or>
               clip_id (timeline_clips example_db ! k) \<notin> set [11, 99, 12, 10, 11] \<longrightarrow>
                 timeline_clips db' ! k = timeline_clips example_db ! k)"
    using reorder_timeline_clips_renumbers [OF member role ids, of "[11, 99, 12, 10, 11]"] by blast
  have len3: "length (timeline_clips example_db) = 3" by (simp add: example_db_def)
  have late: "\<And>j::nat. 3 < j \<Longrightarrow> j < 5 \<Longrightarrow> j = 4" by arith
  have c0: "timeline_clips db' ! 0 = (timeline_clips example_db ! 0)\<lparr>clip_start_time := real 3\<rparr>"
    using all [rule_format, of 0, THEN conjunct1, rule_format, of 3]
    by (auto simp: example_db_def dest: late)
  have c1: "timeline_clips db' ! 1 = (timeline_clips example_db ! 1)\<lparr>clip_start_time := real 4\<rparr>"
    using all [rule_format, of 1, THEN conjunct1, rule_format, of 4]
    by (auto simp: example_db_def)
  have c2: "timeline_clips db' ! 2 = timeline_clips example_db ! 2"
    using all [rule_format, of 2, THEN conjunct2] by (simp add: example_db_def)
  show ?thesis using res len len3 c0 c1 c2 by simp
qed

section \<open>Leaving keeps the invariants\<close>

lemma disconnect_unregistered: "bound s w = None \<Longrightarrow> disconnect w s = (None, s)"
  by (simp add: disconnect_def)

lemma disconnect_registered:
  assumes "bound s w = Some i" and "rooms s (info_project_id i) = Some conns" and "w \<in> set conns"
    and "presence s (info_project_id i) = Some cursors"
  shows "\<exists>s'. disconnect w s = (None, s') \<and> sent s' = sent s \<and>
           bound s' = (bound s)(w := None) \<and>
           rooms s' = (if remove1 w conns = [] then (rooms s)(info_project_id i := None)
                       else (rooms s)(info_project_id i \<mapsto> remove1 w conns)) \<and>
           presence s' = (if remove1 w conns = [] then (presence s)(info_project_id i := None)
                          else (presence s)(info_project_id i \<mapsto> AList.delete (info_user_id i) cursors))"
proof (cases "remove1 w conns = []")
  case True
  with assms show ?thesis
    by (simp add: disconnect_def remove_from_active_def remove_user_cursor_def Let_def
        AList.delete_conv' AList.update_conv' del: map_of_eq_None_iff)
next
  case False
  have triv: "map_of cursors (info_user_id i) = None \<Longrightarrow>
        (presence s)(info_project_id i \<mapsto> AList.delete (info_user_id i) cursors) = presence s"
    using assms(4) by (auto simp: map_of_eq_None_iff fun_eq_iff)
  from False assms show ?thesis
    by (auto simp add: disconnect_def remove_from_active_def remove_user_cursor_def Let_def
        AList.delete_conv' AList.update_conv' triv simp del: map_of_eq_None_iff)
qed

lemma disconnect_view:
  assumes inv: "inv_rooms s" and b: "bound s w = Some i"
  obtains s' conns cursors where
    "rooms s (info_project_id i) = Some conns" "w \<in> set conns"
    "presence s (info_project_id i) = Some cursors"
    "disconnect w s = (None, s')" "sent s' = sent s"
    "bound s' = (bound s)(w := None)"
    "rooms s' = (if remove1 w conns = [] then (rooms s)(info_project_id i := None)
                 else (rooms s)(info_project_id i \<mapsto> remove1 w conns))"
    "presence s' = (if remove1 w conns = [] then (presence s)(info_project_id i := None)
                    else (presence s)(info_project_id i \<mapsto> AList.delete (info_user_id i) cursors))"
proof -
  from inv b obtain conns where c: "rooms s (info_project_id i) = Some conns" "w \<in> set conns"
    unfolding inv_rooms_def by blast
  from inv c(1) obtain cursors where p: "presence s (info_project_id i) = Some cursors"
    unfolding inv_rooms_def by (metis option.exhaust option.distinct(1))
  from disconnect_registered [OF b c p] that c p show thesis by blast
qed

lemma fst_set_delete: "fst ` set (AList.delete k al) = fst ` set al - {k}"
  by (auto simp: AList.delete_eq image_iff)

lemma inv_rooms_disconnect:
  assumes inv: "inv_rooms s"
  shows "fst (disconnect w s) = None \<and> inv_rooms (snd (disconnect w s))"
proof (cases "bound s w")
  case None
  with inv show ?thesis by (simp add: disconnect_unregistered)
next
  case (Some i)
  from inv Some obtain s' conns cursors where v:
    "rooms s (info_project_id i) = Some conns" "w \<in> set conns"
    "presence s (info_project_id i) = Some cursors"
    "disconnect w s = (None, s')"
    "bound s' = (bound s)(w := None)"
    "rooms s' = (if remove1 w conns = [] then (rooms s)(info_project_id i := None)
                 else (rooms s)(info_project_id i \<mapsto> remove1 w conns))"
    "presence s' = (if remove1 w conns = [] then (presence s)(info_project_id i := None)
                    else (presence s)(info_project_id i \<mapsto> AList.delete (info_user_id i) cursors))"
    by (rule disconnect_view)
  have 1: "\<forall>p. rooms s' p = None \<longleftrightarrow> presence s' p = None"
    using inv unfolding inv_rooms_def v(6,7) by simp
  have 2: "\<forall>p c. rooms s' p = Some c \<longrightarrow> c \<noteq> []"
    using inv unfolding inv_rooms_def v(6) by (auto split: if_splits)
  have 3: "\<forall>w' i'. bound s' w' = Some i' \<longrightarrow>
             (\<exists>c. rooms s' (info_project_id i') = Some c \<and> w' \<in> set c)"
  proof (intro allI impI)
    fix w' i'
    assume "bound s' w' = Some i'"
    then have ne: "w' \<noteq> w" and b': "bound s w' = Some i'"
      unfolding v(5) by (auto split: if_splits)
    from inv b' obtain c where c: "rooms s (info_project_id i') = Some c" "w' \<in> set c"
      unfolding inv_rooms_def by blast
    show "\<exists>c. rooms s' (info_project_id i') = Some c \<and> w' \<in> set c"
    proof (cases "info_project_id i' = info_project_id i")
      case True
      with c v(1) have "w' \<in> set conns" by simp
      with ne have "w' \<in> set (remove1 w conns)" by simp
      then show ?thesis unfolding v(6) using True by auto
    next
      case False
      with c show ?thesis unfolding v(6) by auto
    qed
  qed
  have 4: "\<forall>p cs. presence s' p = Some cs \<longrightarrow> distinct (map fst cs)"
    using inv v(3) unfolding inv_rooms_def v(7)
    by (auto split: if_splits simp: AList.distinct_delete)
  show ?thesis using 1 2 3 4 v(4) unfolding inv_rooms_def by simp
qed

lemma inv_presence_disconnect:
  assumes inv: "inv_rooms s" and pr: "inv_presence s"
  shows "inv_presence (snd (disconnect w s))"
proof (cases "bound s w")
  case None
  with pr show ?thesis by (simp add: disconnect_unregistered)
next
  case (Some i)
  from inv Some obtain s' conns cursors where v:
    "presence s (info_project_id i) = Some cursors"
    "disconnect w s = (None, s')"
    "bound s' = (bound s)(w := None)"
    "presence s' = (if remove1 w conns = [] then (presence s)(info_project_id i := None)
                    else (presence s)(info_project_id i \<mapsto> AList.delete (info_user_id i) cursors))"
    by (rule disconnect_view)
  have "\<exists>w' i'. bound s' w' = Some i' \<and> info_project_id i' = p \<and> info_user_id i' = uid"
    if h: "presence s' p = Some cs" "uid \<in> fst ` set cs" for p cs uid
  proof -
    have same: "p = info_project_id i \<longrightarrow> uid \<noteq> info_user_id i \<and> uid \<in> fst ` set cursors"
      using h fst_set_delete [of "info_user_id i" cursors] unfolding v(4)
      by (auto split: if_splits)
    have other: "p \<noteq> info_project_id i \<longrightarrow> presence s p = Some cs"
      using h unfolding v(4) by (simp split: if_splits)
    have "\<exists>cs0. presence s p = Some cs0 \<and> uid \<in> fst ` set cs0 \<and>
                (p = info_project_id i \<longrightarrow> uid \<noteq> info_user_id i)"
    proof (cases "p = info_project_id i")
      case True
      with same v(1) show ?thesis by simp
    next
      case False
      with other h(2) show ?thesis by simp
    qed
    then obtain cs0 where cs0: "presence s p = Some cs0" "uid \<in> fst ` set cs0"
      "p = info_project_id i \<longrightarrow> uid \<noteq> info_user_id i" by blast
    from pr cs0(1,2) obtain w' i' where w': "bound s w' = Some i'" "info_project_id i' = p"
      "info_user_id i' = uid" unfolding inv_presence_def by blast
    with cs0(3) Some have "w' \<noteq> w" by auto
    with w' show ?thesis unfolding v(3) by auto
  qed
  then show ?thesis unfolding inv_presence_def v(2) by simp
qed

lemma inv_single_disconnect:
  assumes inv: "inv_rooms s" and sg: "inv_single s"
  shows "inv_single (snd (disconnect w s))"
proof (cases "bound s w")
  case None
  with sg show ?thesis by (simp add: disconnect_unregistered)
next
  case (Some i)
  from inv Some obtain s' conns cursors where v:
    "rooms s (info_project_id i) = Some conns"
    "presence s (info_project_id i) = Some cursors"
    "disconnect w s = (None, s')"
    "bound s' = (bound s)(w := None)"
    "presence s' = (if remove1 w conns = [] then (presence s)(info_project_id i := None)
                    else (presence s)(info_project_id i \<mapsto> AList.delete (info_user_id i) cursors))"
    by (rule disconnect_view)
  have a: "\<exists>cs. presence s' (info_project_id i') = Some cs \<and> info_user_id i' \<in> fst ` set cs"
    if h: "bound s' w' = Some i'" for w' i'
  proof -
    from h have ne: "w' \<noteq> w" and b': "bound s w' = Some i'"
      unfolding v(4) by (auto split: if_splits)
    from sg b' obtain cs where cs: "presence s (info_project_id i') = Some cs"
      "info_user_id i' \<in> fst ` set cs" unfolding inv_single_def by blast
    show ?thesis
    proof (cases "info_project_id i' = info_project_id i")
      case True
      from inv b' True v(1) have "w' \<in> set conns" unfolding inv_rooms_def by fastforce
      with ne have nonempty: "remove1 w conns \<noteq> []" by (metis in_set_remove1 empty_iff empty_set)
      from sg b' Some True ne have "info_user_id i' \<noteq> info_user_id i"
        unfolding inv_single_def by blast
      with cs True v(2) nonempty show ?thesis unfolding v(5) by (simp add: fst_set_delete)
    next
      case False
      with cs show ?thesis unfolding v(5) by auto
    qed
  qed
  have b: "w1 = w2" if "bound s' w1 = Some i1" "bound s' w2 = Some i2"
    "info_project_id i1 = info_project_id i2" "info_user_id i1 = info_user_id i2" for w1 w2 i1 i2
  proof -
    from that(1,2) have "bound s w1 = Some i1" "bound s w2 = Some i2"
      unfolding v(4) by (auto split: if_splits)
    with sg that(3,4) show ?thesis unfolding inv_single_def by blast
  qed
  show ?thesis unfolding inv_single_def v(3) using a b by auto
qed

section \<open>Broadcasting keeps the invariants\<close>

lemma inv_rooms_sent [simp]: "inv_rooms (s\<lparr>sent := x\<rparr>) = inv_rooms s"
  by (simp add: inv_rooms_def)

lemma inv_rooms_accepted [simp]: "inv_rooms (s\<lparr>accepted := x\<rparr>) = inv_rooms s"
  by (simp add: inv_rooms_def)

lemma inv_presence_sent [simp]: "inv_presence (s\<lparr>sent := x\<rparr>) = inv_presence s"
  by (simp add: inv_presence_def)

lemma inv_presence_accepted [simp]: "inv_presence (s\<lparr>accepted := x\<rparr>) = inv_presence s"
  by (simp add: inv_presence_def)

lemma inv_single_sent [simp]: "inv_single (s\<lparr>sent := x\<rparr>) = inv_single s"
  by (simp add: inv_single_def)

lemma inv_single_accepted [simp]: "inv_single (s\<lparr>accepted := x\<rparr>) = inv_single s"
  by (simp add: inv_single_def)

lemma single_join_accepted [simp]:
  "single_join (s\<lparr>accepted := x\<rparr>) w p u = single_join s w p u"
  by (simp add: single_join_def)

lemma broadcast_loop_eq:
  "broadcast_loop fails m ex conns acc s =
     (acc @ filter (\<lambda>w. Some w \<noteq> ex \<and> fails w \<noteq> None) conns,
      s\<lparr>sent := sent s @ map (\<lambda>w. (w, m)) (filter (\<lambda>w. Some w \<noteq> ex \<and> fails w = None) conns)\<rparr>)"
  by (induction conns arbitrary: acc s) (auto simp: send_text_def split: option.splits)

lemma broadcast_to_project_eq:
  "broadcast_to_project fails p m ex s =
     (case rooms s p of
        None \<Rightarrow> (None, s)
      | Some conns \<Rightarrow>
          cleanup_loop (filter (\<lambda>w. Some w \<noteq> ex \<and> fails w \<noteq> None) conns)
            (s\<lparr>sent := sent s @ map (\<lambda>w. (w, m)) (filter (\<lambda>w. Some w \<noteq> ex \<and> fails w = None) conns)\<rparr>))"
  by (simp add: broadcast_to_project_def broadcast_loop_eq split: option.splits)

lemma cleanup_loop_keeps:
  assumes step: "\<And>s w. P s \<Longrightarrow> fst (disconnect w s) = None \<and> P (snd (disconnect w s))"
  shows "P s \<Longrightarrow> fst (cleanup_loop ws s) = None \<and> P (snd (cleanup_loop ws s))"
proof (induction ws arbitrary: s)
  case Nil
  then show ?case by simp
next
  case (Cons w ws)
  from step [OF Cons.prems, of w] obtain s1 where s1: "disconnect w s = (None, s1)" "P s1"
    by (cases "disconnect w s") auto
  from Cons.IH [OF s1(2)] s1(1) show ?case by simp
qed

lemma broadcast_to_project_keeps:
  assumes step: "\<And>s w. P s \<Longrightarrow> fst (disconnect w s) = None \<and> P (snd (disconnect w s))"
    and log: "\<And>s x. P s \<Longrightarrow> P (s\<lparr>sent := x\<rparr>)"
  shows "P s \<Longrightarrow> fst (broadcast_to_project fails p m ex s) = None \<and>
                 P (snd (broadcast_to_project fails p m ex s))"
  unfolding broadcast_to_project_eq
  by (auto split: option.splits intro: log
      cleanup_loop_keeps [where P = P, OF step, THEN conjunct1]
      cleanup_loop_keeps [where P = P, OF step, THEN conjunct2])

lemma step_rooms:
  "inv_rooms s \<Longrightarrow> fst (disconnect w s) = None \<and> inv_rooms (snd (disconnect w s))"
  by (rule inv_rooms_disconnect)

lemma step_presence:
  "inv_rooms s \<and> inv_presence s \<Longrightarrow>
   fst (disconnect w s) = None \<and> inv_rooms (snd (disconnect w s)) \<and> inv_presence (snd (disconnect w s))"
  by (simp add: inv_rooms_disconnect inv_presence_disconnect)

lemma step_single:
  "inv_rooms s \<and> inv_presence s \<and> inv_single s \<Longrightarrow>
   fst (disconnect w s) = None \<and>
   inv_rooms (snd (disconnect w s)) \<and> inv_presence (snd (disconnect w s)) \<and>
   inv_single (snd (disconnect w s))"
  by (simp add: inv_rooms_disconnect inv_presence_disconnect inv_single_disconnect)

lemma broadcast_rooms:
  "inv_rooms s \<Longrightarrow> fst (broadcast_to_project fails p m ex s) = None \<and>
                   inv_rooms (snd (broadcast_to_project fails p m ex s))"
  by (rule broadcast_to_project_keeps [where P = inv_rooms]) (simp_all add: step_rooms)

lemma broadcast_presence:
  "inv_rooms s \<Longrightarrow> inv_presence s \<Longrightarrow> inv_presence (snd (broadcast_to_project fails p m ex s))"
  using broadcast_to_project_keeps
    [where P = "\<lambda>s. inv_rooms s \<and> inv_presence s" and s = s and fails = fails and p = p and m = m and ex = ex]
    step_presence
  by simp

lemma broadcast_single:
  "inv_rooms s \<Longrightarrow> inv_presence s \<Longrightarrow> inv_single s \<Longrightarrow>
   inv_single (snd (broadcast_to_project fails p m ex s))"
  using broadcast_to_project_keeps
    [where P = "\<lambda>s. inv_rooms s \<and> inv_presence s \<and> inv_single s" and s = s and fails = fails
       and p = p and m = m and ex = ex]
    step_single
  by simp

section \<open>Registering keeps the invariants\<close>

lemma register_view:
  assumes inv: "inv_rooms s"
  obtains s' where "register w p u s = (None, s')" "sent s' = sent s"
    "bound s' = (bound s)(w \<mapsto> \<lparr>info_user_id = usr_id u, info_username = usr_username u,
                                info_project_id = p\<rparr>)"
    "rooms s' = (rooms s)(p \<mapsto> (case rooms s p of None \<Rightarrow> [] | Some c \<Rightarrow> c) @ [w])"
    "presence s' = (presence s)(p \<mapsto> AList.update (usr_id u) (initial_cursor u)
                                      (case presence s p of None \<Rightarrow> [] | Some cs \<Rightarrow> cs))"
proof (cases "rooms s p")
  case None
  with inv have "presence s p = None" unfolding inv_rooms_def by blast
  with None that show thesis
    by (simp add: register_def Let_def AList.update_conv' del: map_of_eq_None_iff)
next
  case (Some c)
  with inv obtain cs where "presence s p = Some cs"
    unfolding inv_rooms_def by (metis option.exhaust option.distinct(1))
  with Some that show thesis
    by (simp add: register_def Let_def AList.update_conv' del: map_of_eq_None_iff)
qed

lemma inv_rooms_register:
  assumes inv: "inv_rooms s"
  shows "fst (register w p u s) = None \<and> inv_rooms (snd (register w p u s))"
proof -
  from inv obtain s' where v: "register w p u s = (None, s')"
    "bound s' = (bound s)(w \<mapsto> \<lparr>info_user_id = usr_id u, info_username = usr_username u,
                                info_project_id = p\<rparr>)"
    "rooms s' = (rooms s)(p \<mapsto> (case rooms s p of None \<Rightarrow> [] | Some c \<Rightarrow> c) @ [w])"
    "presence s' = (presence s)(p \<mapsto> AList.update (usr_id u) (initial_cursor u)
                                      (case presence s p of None \<Rightarrow> [] | Some cs \<Rightarrow> cs))"
    by (rule register_view)
  have 1: "\<forall>q. rooms s' q = None \<longleftrightarrow> presence s' q = None"
    using inv unfolding inv_rooms_def v by simp
  have 2: "\<forall>q c. rooms s' q = Some c \<longrightarrow> c \<noteq> []"
    using inv unfolding inv_rooms_def v by auto
  have 3: "\<forall>w' i'. bound s' w' = Some i' \<longrightarrow>
             (\<exists>c. rooms s' (info_project_id i') = Some c \<and> w' \<in> set c)"
  proof (intro allI impI)
    fix w' i'
    assume b: "bound s' w' = Some i'"
    show "\<exists>c. rooms s' (info_project_id i') = Some c \<and> w' \<in> set c"
    proof (cases "w' = w")
      case True
      with b show ?thesis unfolding v by auto
    next
      case False
      with b have "bound s w' = Some i'" unfolding v by simp
      with inv obtain c where "rooms s (info_project_id i') = Some c" "w' \<in> set c"
        unfolding inv_rooms_def by blast
      then show ?thesis unfolding v by auto
    qed
  qed
  have 4: "\<forall>q cs. presence s' q = Some cs \<longrightarrow> distinct (map fst cs)"
    using inv unfolding inv_rooms_def v
    by (auto simp: AList.distinct_update split: option.splits)
  show ?thesis using 1 2 3 4 v(1) unfolding inv_rooms_def by simp
qed

lemma inv_presence_register:
  assumes inv: "inv_rooms s" and pr: "inv_presence s" and fresh: "bound s w = None"
  shows "inv_presence (snd (register w p u s))"
proof -
  from inv obtain s' where v: "register w p u s = (None, s')"
    "bound s' = (bound s)(w \<mapsto> \<lparr>info_user_id = usr_id u, info_username = usr_username u,
                                info_project_id = p\<rparr>)"
    "presence s' = (presence s)(p \<mapsto> AList.update (usr_id u) (initial_cursor u)
                                      (case presence s p of None \<Rightarrow> [] | Some cs \<Rightarrow> cs))"
    by (rule register_view)
  have "\<exists>w' i'. bound s' w' = Some i' \<and> info_project_id i' = q \<and> info_user_id i' = uid"
    if h: "presence s' q = Some cs" "uid \<in> fst ` set cs" for q cs uid
  proof (cases "q = p \<and> uid = usr_id u")
    case True
    then show ?thesis unfolding v by auto
  next
    case False
    have "\<exists>cs0. presence s q = Some cs0 \<and> uid \<in> fst ` set cs0"
    proof (cases "q = p")
      case True
      with h(1) have cs: "cs = AList.update (usr_id u) (initial_cursor u)
                                (case presence s p of None \<Rightarrow> [] | Some cs \<Rightarrow> cs)"
        unfolding v by simp
      from h(2) False True show ?thesis
        unfolding cs AList.dom_update by (cases "presence s p") auto
    next
      case False
      with h show ?thesis unfolding v by simp
    qed
    with pr obtain w' i' where w': "bound s w' = Some i'" "info_project_id i' = q"
      "info_user_id i' = uid" unfolding inv_presence_def by blast
    with fresh have "w' \<noteq> w" by auto
    with w' show ?thesis unfolding v by auto
  qed
  then show ?thesis unfolding inv_presence_def v(1) by simp
qed

lemma inv_single_register:
  assumes inv: "inv_rooms s" and sg: "inv_single s" and guard: "single_join s w p u"
  shows "inv_single (snd (register w p u s))"
proof -
  from inv obtain s' where v: "register w p u s = (None, s')"
    "bound s' = (bound s)(w \<mapsto> \<lparr>info_user_id = usr_id u, info_username = usr_username u,
                                info_project_id = p\<rparr>)"
    "presence s' = (presence s)(p \<mapsto> AList.update (usr_id u) (initial_cursor u)
                                      (case presence s p of None \<Rightarrow> [] | Some cs \<Rightarrow> cs))"
    by (rule register_view)
  have other: "\<not> (info_project_id i = p \<and> info_user_id i = usr_id u)" if "bound s w' = Some i" for w' i
  proof -
    from that have "(w', i) \<in> set (connection_users s)" by (rule map_of_SomeD)
    with guard show ?thesis unfolding single_join_def list_all_iff by auto
  qed
  have a: "\<exists>cs. presence s' (info_project_id i') = Some cs \<and> info_user_id i' \<in> fst ` set cs"
    if b: "bound s' w' = Some i'" for w' i'
  proof (cases "w' = w")
    case True
    with b show ?thesis unfolding v by (auto simp: AList.dom_update)
  next
    case False
    with b have "bound s w' = Some i'" unfolding v by simp
    with sg obtain cs where "presence s (info_project_id i') = Some cs"
      "info_user_id i' \<in> fst ` set cs" unfolding inv_single_def by blast
    then show ?thesis unfolding v by (auto simp: AList.dom_update)
  qed
  have b: "w1 = w2" if h: "bound s' w1 = Some i1" "bound s' w2 = Some i2"
    "info_project_id i1 = info_project_id i2" "info_user_id i1 = info_user_id i2" for w1 w2 i1 i2
  proof (cases "w1 = w"; cases "w2 = w")
    assume "w1 \<noteq> w" "w2 \<noteq> w"
    with h(1,2) have "bound s w1 = Some i1" "bound s w2 = Some i2" unfolding v by simp_all
    with sg h(3,4) show ?thesis unfolding inv_single_def by blast
  next
    assume "w1 = w" "w2 \<noteq> w"
    with h(1,2) have "i1 = \<lparr>info_user_id = usr_id u, info_username = usr_username u,
                           info_project_id = p\<rparr>" "bound s w2 = Some i2" unfolding v by simp_all
    with other [of w2 i2] h(3,4) show ?thesis by simp
  next
    assume "w1 \<noteq> w" "w2 = w"
    with h(1,2) have "i2 = \<lparr>info_user_id = usr_id u, info_username = usr_username u,
                           info_project_id = p\<rparr>" "bound s w1 = Some i1" unfolding v by simp_all
    with other [of w1 i1] h(3,4) show ?thesis by simp
  qed simp
  show ?thesis unfolding inv_single_def v(1) using a b by auto
qed

section \<open>Joining and the handlers keep the invariants\<close>

lemma stable_broadcast:
  assumes st: "stable P" and P: "P s"
  shows "fst (broadcast_to_project fails p m ex s) = None \<and>
         P (snd (broadcast_to_project fails p m ex s))"
proof (rule broadcast_to_project_keeps [where P = P])
  show "P s" by fact
next
  fix t w assume "P t"
  with st show "fst (disconnect w t) = None \<and> P (snd (disconnect w t))"
    unfolding stable_def by blast
next
  fix t x assume "P t"
  with st show "P (t\<lparr>sent := x\<rparr>)" unfolding stable_def by blast
qed

lemma connect_refused:
  "w \<in> set (accepted s) \<Longrightarrow> connect fails w p u s = (Some RuntimeError, s)"
  by (simp add: connect_def accept_def)

lemma connect_keeps:
  assumes st: "stable P" and Ps: "P s"
    and reg: "fst (register w p u (s\<lparr>accepted := accepted s @ [w]\<rparr>)) = None \<and>
              P (snd (register w p u (s\<lparr>accepted := accepted s @ [w]\<rparr>)))"
  shows "P (snd (connect fails w p u s))"
proof (cases "w \<in> set (accepted s)")
  case True
  with Ps show ?thesis by (simp add: connect_refused)
next
  case False
  let ?s0 = "s\<lparr>accepted := accepted s @ [w]\<rparr>"
  from False have a: "accept w s = (None, ?s0)" by (simp add: accept_def)
  obtain s1 where s1: "register w p u ?s0 = (None, s1)" "P s1"
    using reg by (cases "register w p u ?s0") auto
  let ?b = "broadcast_to_project fails p (user_joined u (initial_cursor u)) (Some w) s1"
  obtain s2 where s2: "?b = (None, s2)" "P s2"
    using stable_broadcast [OF st s1(2), of fails p "user_joined u (initial_cursor u)" "Some w"]
    by (cases ?b) auto
  have log: "P (s2\<lparr>sent := x\<rparr>)" for x
    using st s2(2) unfolding stable_def by blast
  show ?thesis
    using a s1 s2 log
    by (auto simp: connect_def send_personal_message_def send_text_def
        split: option.splits simp del: map_of_eq_None_iff)
qed

lemma accept_keeps:
  assumes st: "stable P" and Ps: "P s"
  shows "P (snd (accept w s))"
proof -
  have "P (s\<lparr>accepted := x\<rparr>)" for x
    using st Ps unfolding stable_def by blast
  with Ps show ?thesis by (simp add: accept_def)
qed

lemma handlers_keep:
  assumes st: "stable P" and Ps: "P s"
  shows "fst (handle_cursor_update fails w data s) = None \<and> P (snd (handle_cursor_update fails w data s))"
    and "fst (handle_timeline_update fails w data s) = None \<and> P (snd (handle_timeline_update fails w data s))"
    and "fst (handle_chat_message fails w data s) = None \<and> P (snd (handle_chat_message fails w data s))"
    and "P (snd (send_text fails w m s))"
proof -
  have log: "P (t\<lparr>sent := x\<rparr>)" if "P t" for t x
    using st that unfolding stable_def by blast
  have upd: "P (t\<lparr>user_cursors :=
                     AList.update p (AList.update uid (update_cursor d c) cursors) (user_cursors t)\<rparr>)"
    if "P t" "presence t p = Some cursors" "map_of cursors uid = Some c" for t p cursors uid c d
    using st that unfolding stable_def by blast
  have b: "fst (broadcast_to_project fails q m' ex t) = None \<and>
           P (snd (broadcast_to_project fails q m' ex t))" if "P t" for q m' ex t
    using st that by (rule stable_broadcast)
  show "fst (handle_timeline_update fails w data s) = None \<and> P (snd (handle_timeline_update fails w data s))"
    using Ps b [OF Ps] by (simp add: handle_timeline_update_def split: option.splits)
  show "fst (handle_chat_message fails w data s) = None \<and> P (snd (handle_chat_message fails w data s))"
    using Ps b [OF Ps] by (simp add: handle_chat_message_def split: option.splits)
  show "P (snd (send_text fails w m s))"
    using Ps log [OF Ps] by (simp add: send_text_def split: option.splits)
  show "fst (handle_cursor_update fails w data s) = None \<and> P (snd (handle_cursor_update fails w data s))"
  proof (cases "bound s w")
    case None
    with Ps show ?thesis by (simp add: handle_cursor_update_def)
  next
    case (Some i)
    note i = this
    show ?thesis
    proof (cases "presence s (info_project_id i)")
      case None
      with i Ps show ?thesis by (simp add: handle_cursor_update_def del: map_of_eq_None_iff)
    next
      case (Some cursors)
      note cursors = this
      show ?thesis
      proof (cases "map_of cursors (info_user_id i)")
        case None
        with i cursors Ps show ?thesis
          by (simp add: handle_cursor_update_def del: map_of_eq_None_iff)
      next
        case (Some c)
        from b [OF upd [OF Ps cursors this]]
        show ?thesis
          using i cursors Some
          by (simp add: handle_cursor_update_def Let_def del: map_of_eq_None_iff)
      qed
    qed
  qed
qed

lemma fst_set_update_present:
  "uid \<in> fst ` set cursors \<Longrightarrow> fst ` set (AList.update uid c cursors) = fst ` set cursors"
  by (auto simp: AList.dom_update)

lemma inv_rooms_cursor:
  assumes "inv_rooms s" "presence s p = Some cursors" "uid \<in> fst ` set cursors"
  shows "inv_rooms (s\<lparr>user_cursors := AList.update p (AList.update uid c cursors) (user_cursors s)\<rparr>)"
  using assms unfolding inv_rooms_def
  by (auto simp: AList.update_conv' AList.distinct_update simp del: map_of_eq_None_iff)

lemma inv_presence_cursor:
  assumes "inv_presence s" "presence s p = Some cursors" "uid \<in> fst ` set cursors"
  shows "inv_presence (s\<lparr>user_cursors := AList.update p (AList.update uid c cursors) (user_cursors s)\<rparr>)"
  using assms fst_set_update_present [OF assms(3), of c] unfolding inv_presence_def
  by (simp add: AList.update_conv' del: map_of_eq_None_iff)

lemma inv_single_cursor:
  assumes sg: "inv_single s" and pr: "presence s p = Some cursors" and uid: "uid \<in> fst ` set cursors"
  shows "inv_single (s\<lparr>user_cursors := AList.update p (AList.update uid c cursors) (user_cursors s)\<rparr>)"
proof -
  let ?s = "s\<lparr>user_cursors := AList.update p (AList.update uid c cursors) (user_cursors s)\<rparr>"
  have b: "bound ?s = bound s" by simp
  have pres: "presence ?s = (presence s)(p \<mapsto> AList.update uid c cursors)"
    by (simp add: AList.update_conv')
  have keys: "fst ` set (AList.update uid c cursors) = fst ` set cursors"
    using uid by (rule fst_set_update_present)
  have a: "\<exists>cs. presence ?s (info_project_id i) = Some cs \<and> info_user_id i \<in> fst ` set cs"
    if "bound ?s w = Some i" for w i
  proof -
    from that sg obtain cs where cs: "presence s (info_project_id i) = Some cs"
      "info_user_id i \<in> fst ` set cs" unfolding inv_single_def b by blast
    show ?thesis
    proof (cases "info_project_id i = p")
      case True
      with cs pr have "cs = cursors" by simp
      with cs(2) True keys show ?thesis unfolding pres by simp
    next
      case False
      with cs show ?thesis unfolding pres by simp
    qed
  qed
  have u: "\<forall>w w' i i'. bound ?s w = Some i \<longrightarrow> bound ?s w' = Some i' \<longrightarrow>
        info_project_id i = info_project_id i' \<longrightarrow> info_user_id i = info_user_id i' \<longrightarrow> w = w'"
    using sg unfolding inv_single_def b by blast
  show ?thesis unfolding inv_single_def using a u by blast
qed

lemma inv_init: "inv_rooms init" "inv_presence init" "inv_single init"
  by (simp_all add: inv_rooms_def inv_presence_def inv_single_def init_def)

lemma map_of_Some_key: "map_of al k = Some v \<Longrightarrow> k \<in> fst ` set al"
  by (metis map_of_eq_None_iff option.distinct(1))

lemma stable_rooms: "stable inv_rooms"
  unfolding stable_def
  by (intro conjI allI impI inv_rooms_disconnect [THEN conjunct1]
      inv_rooms_disconnect [THEN conjunct2] inv_rooms_cursor map_of_Some_key) simp_all

lemma stable_presence: "stable (\<lambda>s. inv_rooms s \<and> inv_presence s)"
  unfolding stable_def
  by (intro conjI allI impI inv_rooms_disconnect [THEN conjunct1]
      inv_rooms_disconnect [THEN conjunct2] inv_presence_disconnect
      inv_rooms_cursor inv_presence_cursor map_of_Some_key) simp_all

lemma stable_single: "stable (\<lambda>s. inv_rooms s \<and> inv_presence s \<and> inv_single s)"
  unfolding stable_def
  by (intro conjI allI impI inv_rooms_disconnect [THEN conjunct1]
      inv_rooms_disconnect [THEN conjunct2] inv_presence_disconnect inv_single_disconnect
      inv_rooms_cursor inv_presence_cursor inv_single_cursor map_of_Some_key) simp_all

lemma reachable_inv_rooms: "reachable guard s \<Longrightarrow> inv_rooms s"
proof (induction rule: reachable.induct)
  case reachable_init
  show ?case by (rule inv_init)
next
  case (reachable_connect s websocket project_id u fails)
  let ?s0 = "s\<lparr>accepted := accepted s @ [websocket]\<rparr>"
  from reachable_connect.IH have "inv_rooms ?s0" by simp
  then have "fst (register websocket project_id u ?s0) = None \<and>
             inv_rooms (snd (register websocket project_id u ?s0))"
    by (rule inv_rooms_register)
  with stable_rooms reachable_connect.IH show ?case by (rule connect_keeps)
next
  case (reachable_disconnect s websocket)
  then show ?case by (simp add: inv_rooms_disconnect)
next
  case (reachable_cursor_update s fails websocket data)
  from handlers_keep(1) [OF stable_rooms this(2)] show ?case by simp
next
  case (reachable_timeline_update s fails websocket data)
  from handlers_keep(2) [OF stable_rooms this(2)] show ?case by simp
next
  case (reachable_chat_message s fails websocket data)
  from handlers_keep(3) [OF stable_rooms this(2)] show ?case by simp
next
  case (reachable_send_text s fails websocket message)
  from handlers_keep(4) [OF stable_rooms this(2)] show ?case by simp
next
  case (reachable_accept s websocket)
  from accept_keeps [OF stable_rooms this(2)] show ?case by simp
qed

lemma reachable_inv_presence:
  "reachable fresh_join s \<Longrightarrow> inv_rooms s \<and> inv_presence s"
proof (induction rule: reachable.induct)
  case reachable_init
  show ?case by (simp add: inv_init)
next
  case (reachable_connect s websocket project_id u fails)
  from this(2) have fresh: "bound s websocket = None" by (simp add: fresh_join_def)
  let ?s0 = "s\<lparr>accepted := accepted s @ [websocket]\<rparr>"
  from reachable_connect.IH fresh
  have "inv_rooms ?s0" "inv_presence ?s0" "bound ?s0 websocket = None" by simp_all
  then have "fst (register websocket project_id u ?s0) = None \<and>
        (inv_rooms (snd (register websocket project_id u ?s0)) \<and>
         inv_presence (snd (register websocket project_id u ?s0)))"
    by (simp add: inv_rooms_register inv_presence_register del: map_of_eq_None_iff)
  with stable_presence reachable_connect.IH show ?case by (rule connect_keeps)
next
  case (reachable_disconnect s websocket)
  then show ?case by (simp add: inv_rooms_disconnect inv_presence_disconnect)
next
  case (reachable_cursor_update s fails websocket data)
  from handlers_keep(1) [OF stable_presence this(2)] show ?case by simp
next
  case (reachable_timeline_update s fails websocket data)
  from handlers_keep(2) [OF stable_presence this(2)] show ?case by simp
next
  case (reachable_chat_message s fails websocket data)
  from handlers_keep(3) [OF stable_presence this(2)] show ?case by simp
next
  case (reachable_send_text s fails websocket message)
  from handlers_keep(4) [OF stable_presence this(2)] show ?case by simp
next
  case (reachable_accept s websocket)
  from accept_keeps [OF stable_presence this(2)] show ?case by simp
qed

lemma reachable_inv_single:
  "reachable single_join s \<Longrightarrow> inv_rooms s \<and> inv_presence s \<and> inv_single s"
proof (induction rule: reachable.induct)
  case reachable_init
  show ?case by (simp add: inv_init)
next
  case (reachable_connect s websocket project_id u fails)
  from this(2) have fresh: "bound s websocket = None" by (simp add: single_join_def)
  let ?s0 = "s\<lparr>accepted := accepted s @ [websocket]\<rparr>"
  from reachable_connect.IH fresh reachable_connect(2)
  have "inv_rooms ?s0" "inv_presence ?s0" "inv_single ?s0" "bound ?s0 websocket = None"
    "single_join ?s0 websocket project_id u" by simp_all
  then have "fst (register websocket project_id u ?s0) = None \<and>
        (inv_rooms (snd (register websocket project_id u ?s0)) \<and>
         inv_presence (snd (register websocket project_id u ?s0)) \<and>
         inv_single (snd (register websocket project_id u ?s0)))"
    by (simp add: inv_rooms_register inv_presence_register inv_single_register
        del: map_of_eq_None_iff)
  with stable_single reachable_connect.IH show ?case by (rule connect_keeps)
next
  case (reachable_disconnect s websocket)
  then show ?case
    by (simp add: inv_rooms_disconnect inv_presence_disconnect inv_single_disconnect)
next
  case (reachable_cursor_update s fails websocket data)
  from handlers_keep(1) [OF stable_single this(2)] show ?case by simp
next
  case (reachable_timeline_update s fails websocket data)
  from handlers_keep(2) [OF stable_single this(2)] show ?case by simp
next
  case (reachable_chat_message s fails websocket data)
  from handlers_keep(3) [OF stable_single this(2)] show ?case by simp
next
  case (reachable_send_text s fails websocket message)
  from handlers_keep(4) [OF stable_single this(2)] show ?case by simp
next
  case (reachable_accept s websocket)
  from accept_keeps [OF stable_single this(2)] show ?case by simp
qed

section \<open>The shape of cursors\<close>

lemma inv_cursors_sent [simp]: "inv_cursors (s\<lparr>sent := x\<rparr>) = inv_cursors s"
  by (simp add: inv_cursors_def)

lemma inv_cursors_accepted [simp]: "inv_cursors (s\<lparr>accepted := x\<rparr>) = inv_cursors s"
  by (simp add: inv_cursors_def)

lemma in_set_update: "(k', v') \<in> set (AList.update k v al) \<Longrightarrow> (k', v') = (k, v) \<or> (k', v') \<in> set al"
  by (induction al) (auto split: if_splits)

lemma in_set_delete: "(k', v') \<in> set (AList.delete k al) \<Longrightarrow> (k', v') \<in> set al"
  by (simp add: AList.delete_eq)

lemma initial_cursor_keys:
  "{''x'', ''y'', ''username'', ''color''} \<subseteq> fst ` set (initial_cursor u)"
  by (simp add: initial_cursor_def)

lemma update_cursor_keys:
  "fst ` set c \<subseteq> fst ` set (update_cursor data c)"
  by (auto simp: update_cursor_def AList.dom_update)

lemma inv_cursors_disconnect:
  assumes inv: "inv_rooms s" and cu: "inv_cursors s"
  shows "inv_cursors (snd (disconnect w s))"
proof (cases "bound s w")
  case None
  with cu show ?thesis by (simp add: disconnect_unregistered)
next
  case (Some i)
  from inv Some obtain s' conns cursors where v:
    "presence s (info_project_id i) = Some cursors"
    "disconnect w s = (None, s')"
    "presence s' = (if remove1 w conns = [] then (presence s)(info_project_id i := None)
                    else (presence s)(info_project_id i \<mapsto> AList.delete (info_user_id i) cursors))"
    by (rule disconnect_view)
  have "{''x'', ''y'', ''username'', ''color''} \<subseteq> fst ` set c"
    if h: "presence s' p = Some cs" "(uid, c) \<in> set cs" for p cs uid c
  proof -
    have "\<exists>cs0. presence s p = Some cs0 \<and> (uid, c) \<in> set cs0"
      using h v(1) unfolding v(3) by (auto split: if_splits dest: in_set_delete)
    with cu show ?thesis unfolding inv_cursors_def by blast
  qed
  then show ?thesis unfolding inv_cursors_def v(2) by simp
qed

lemma inv_cursors_register:
  assumes inv: "inv_rooms s" and cu: "inv_cursors s"
  shows "inv_cursors (snd (register w p u s))"
proof -
  from inv obtain s' where v: "register w p u s = (None, s')"
    "presence s' = (presence s)(p \<mapsto> AList.update (usr_id u) (initial_cursor u)
                                      (case presence s p of None \<Rightarrow> [] | Some cs \<Rightarrow> cs))"
    by (rule register_view)
  have "{''x'', ''y'', ''username'', ''color''} \<subseteq> fst ` set c"
    if h: "presence s' q = Some cs" "(uid, c) \<in> set cs" for q cs uid c
  proof (cases "q = p")
    case True
    with h(1) have cs: "cs = AList.update (usr_id u) (initial_cursor u)
                              (case presence s p of None \<Rightarrow> [] | Some cs \<Rightarrow> cs)"
      unfolding v by simp
    from h(2) [unfolded cs] have
      "(uid, c) = (usr_id u, initial_cursor u) \<or>
       (uid, c) \<in> set (case presence s p of None \<Rightarrow> [] | Some cs \<Rightarrow> cs)"
      by (rule in_set_update)
    then show ?thesis
    proof
      assume "(uid, c) = (usr_id u, initial_cursor u)"
      then show ?thesis using initial_cursor_keys [of u] by simp
    next
      assume "(uid, c) \<in> set (case presence s p of None \<Rightarrow> [] | Some cs \<Rightarrow> cs)"
      then obtain cs0 where "presence s p = Some cs0" "(uid, c) \<in> set cs0"
        by (cases "presence s p") auto
      with cu show ?thesis unfolding inv_cursors_def by blast
    qed
  next
    case False
    with h have "presence s q = Some cs" unfolding v by simp
    with cu h(2) show ?thesis unfolding inv_cursors_def by blast
  qed
  then show ?thesis unfolding inv_cursors_def v(1) by simp
qed

lemma inv_cursors_cursor:
  assumes cu: "inv_cursors s" and pr: "presence s p = Some cursors" and c: "map_of cursors uid = Some c"
  shows "inv_cursors (s\<lparr>user_cursors :=
           AList.update p (AList.update uid (update_cursor data c) cursors) (user_cursors s)\<rparr>)"
proof -
  let ?s = "s\<lparr>user_cursors :=
           AList.update p (AList.update uid (update_cursor data c) cursors) (user_cursors s)\<rparr>"
  have pres: "presence ?s = (presence s)(p \<mapsto> AList.update uid (update_cursor data c) cursors)"
    by (simp add: AList.update_conv')
  from c have "(uid, c) \<in> set cursors" by (rule map_of_SomeD)
  with cu pr have old: "{''x'', ''y'', ''username'', ''color''} \<subseteq> fst ` set c"
    unfolding inv_cursors_def by blast
  have "{''x'', ''y'', ''username'', ''color''} \<subseteq> fst ` set c'"
    if h: "presence ?s q = Some cs" "(uid', c') \<in> set cs" for q cs uid' c'
  proof (cases "q = p")
    case True
    with h(1) have cs: "cs = AList.update uid (update_cursor data c) cursors"
      unfolding pres by simp
    from h(2) [unfolded cs] have
      "(uid', c') = (uid, update_cursor data c) \<or> (uid', c') \<in> set cursors"
      by (rule in_set_update)
    then show ?thesis
    proof
      assume "(uid', c') = (uid, update_cursor data c)"
      with old update_cursor_keys [of c data] show ?thesis by blast
    next
      assume "(uid', c') \<in> set cursors"
      with cu pr show ?thesis unfolding inv_cursors_def by blast
    qed
  next
    case False
    with h have "presence s q = Some cs" unfolding pres by simp
    with cu h(2) show ?thesis unfolding inv_cursors_def by blast
  qed
  then show ?thesis unfolding inv_cursors_def by blast
qed

lemma stable_cursors: "stable (\<lambda>s. inv_rooms s \<and> inv_cursors s)"
  unfolding stable_def
  by (intro conjI allI impI inv_rooms_disconnect [THEN conjunct1]
      inv_rooms_disconnect [THEN conjunct2] inv_cursors_disconnect
      inv_rooms_cursor inv_cursors_cursor map_of_Some_key) simp_all

lemma reachable_inv_cursors: "reachable guard s \<Longrightarrow> inv_rooms s \<and> inv_cursors s"
proof (induction rule: reachable.induct)
  case reachable_init
  have "inv_cursors init" by (simp add: inv_cursors_def init_def)
  with inv_init(1) show ?case by simp
next
  case (reachable_connect s websocket project_id u fails)
  let ?s0 = "s\<lparr>accepted := accepted s @ [websocket]\<rparr>"
  from reachable_connect.IH have "inv_rooms ?s0" "inv_cursors ?s0" by simp_all
  then have "fst (register websocket project_id u ?s0) = None \<and>
        (inv_rooms (snd (register websocket project_id u ?s0)) \<and>
         inv_cursors (snd (register websocket project_id u ?s0)))"
    by (simp add: inv_rooms_register inv_cursors_register)
  with stable_cursors reachable_connect.IH show ?case by (rule connect_keeps)
next
  case (reachable_disconnect s websocket)
  then show ?case by (simp add: inv_rooms_disconnect inv_cursors_disconnect)
next
  case (reachable_cursor_update s fails websocket data)
  from handlers_keep(1) [OF stable_cursors this(2)] show ?case by simp
next
  case (reachable_timeline_update s fails websocket data)
  from handlers_keep(2) [OF stable_cursors this(2)] show ?case by simp
next
  case (reachable_chat_message s fails websocket data)
  from handlers_keep(3) [OF stable_cursors this(2)] show ?case by simp
next
  case (reachable_send_text s fails websocket message)
  from handlers_keep(4) [OF stable_cursors this(2)] show ?case by simp
next
  case (reachable_accept s websocket)
  from accept_keeps [OF stable_cursors this(2)] show ?case by simp
qed

section \<open>The example sessions are reachable\<close>

lemma alice_info: "\<lparr>info_user_id = usr_id alice, info_username = usr_username alice, info_project_id = 1\<rparr>
  = \<lparr>info_user_id = 1, info_username = ''alice'', info_project_id = 1\<rparr>"
  by (simp add: alice_def)

lemma alice_twice_fields:
  "active_connections alice_twice = [(1, [11, 13])]"
  "connection_users alice_twice =
     [(11, \<lparr>info_user_id = 1, info_username = ''alice'', info_project_id = 1\<rparr>),
      (13, \<lparr>info_user_id = 1, info_username = ''alice'', info_project_id = 1\<rparr>)]"
  "user_cursors alice_twice =
     [(1, [(1, [(''x'', JInt 0), (''y'', JInt 0), (''username'', JStr ''alice''),
                (''color'', JStr ''#4ECDC4'')])])]"
  "accepted alice_twice = [11, 13]"
  by (simp_all add: alice_twice_def connect_def accept_def register_def broadcast_to_project_def
      send_personal_message_def send_text_def delivers_def alice_def initial_cursor_def
      generate_user_color_def colors_def Let_def alice_joined_accepted
      alice_joined_connection_users alice_joined_active_connections alice_joined_user_cursors)

lemma both_joined_fields:
  "active_connections both_joined = [(1, [11, 12])]"
  "connection_users both_joined =
     [(11, \<lparr>info_user_id = 1, info_username = ''alice'', info_project_id = 1\<rparr>),
      (12, \<lparr>info_user_id = 2, info_username = ''bob'', info_project_id = 1\<rparr>)]"
  "user_cursors both_joined =
     [(1, [(1, [(''x'', JInt 0), (''y'', JInt 0), (''username'', JStr ''alice''),
                (''color'', JStr ''#4ECDC4'')]),
           (2, [(''x'', JInt 0), (''y'', JInt 0), (''username'', JStr ''bob''),
                (''color'', JStr ''#45B7D1'')])])]"
  by (simp_all add: both_joined_def connect_def accept_def register_def broadcast_to_project_def
      send_personal_message_def send_text_def delivers_def bob_def initial_cursor_def
      generate_user_color_def colors_def Let_def alice_joined_accepted
      alice_joined_connection_users alice_joined_active_connections alice_joined_user_cursors)


lemma alice_left_once_fields:
  "active_connections alice_left_once = [(1, [13])]"
  "connection_users alice_left_once =
     [(13, \<lparr>info_user_id = 1, info_username = ''alice'', info_project_id = 1\<rparr>)]"
  "user_cursors alice_left_once = [(1, [])]"
  "sent alice_left_once = sent alice_twice"
  "accepted alice_left_once = [11, 13]"
  by (simp_all add: alice_left_once_def disconnect_def remove_from_active_def
      remove_user_cursor_def Let_def alice_twice_fields)


lemma reachable_alice_joined: "reachable single_join alice_joined"
  unfolding alice_joined_def
  by (rule reachable_connect [OF reachable_init]) (simp add: single_join_def init_def)

lemma reachable_both_joined: "reachable single_join both_joined"
  unfolding both_joined_def
  by (rule reachable_connect [OF reachable_alice_joined])
    (simp add: single_join_def alice_joined_connection_users bob_def)

lemma fresh_alice_joined: "reachable fresh_join alice_joined"
  unfolding alice_joined_def
  by (rule reachable_connect [OF reachable_init]) (simp add: fresh_join_def init_def)

lemma fresh_both_joined: "reachable fresh_join both_joined"
  unfolding both_joined_def
  by (rule reachable_connect [OF fresh_alice_joined])
    (simp add: fresh_join_def alice_joined_connection_users)

lemma fresh_alice_twice: "reachable fresh_join alice_twice"
  unfolding alice_twice_def
  by (rule reachable_connect [OF fresh_alice_joined])
    (simp add: fresh_join_def alice_joined_connection_users)


lemma fresh_alice_left_once: "reachable fresh_join alice_left_once"
  unfolding alice_left_once_def by (rule reachable_disconnect [OF fresh_alice_twice])


section \<open>Rooms, presence and connections\<close>

lemma leave_effect:
  assumes inv: "inv_rooms s" and b: "bound s w = Some i"
  shows "\<exists>s'. disconnect w s = (None, s') \<and>
           (\<forall>cursors. presence s' (info_project_id i) = Some cursors \<longrightarrow>
                      info_user_id i \<notin> fst ` set cursors) \<and>
           (rooms s (info_project_id i) = Some [w] \<longrightarrow>
              rooms s' (info_project_id i) = None \<and> presence s' (info_project_id i) = None) \<and>
           (\<forall>p conns. rooms s' p = Some conns \<longrightarrow> conns \<noteq> [])"
proof -
  from inv b obtain s' conns cursors where v:
    "rooms s (info_project_id i) = Some conns"
    "disconnect w s = (None, s')"
    "rooms s' = (if remove1 w conns = [] then (rooms s)(info_project_id i := None)
                 else (rooms s)(info_project_id i \<mapsto> remove1 w conns))"
    "presence s' = (if remove1 w conns = [] then (presence s)(info_project_id i := None)
                    else (presence s)(info_project_id i \<mapsto> AList.delete (info_user_id i) cursors))"
    by (rule disconnect_view)
  have inv': "inv_rooms s'"
    using inv_rooms_disconnect [OF inv, of w] v(2) by simp
  have gone: "\<forall>cs. presence s' (info_project_id i) = Some cs \<longrightarrow> info_user_id i \<notin> fst ` set cs"
    unfolding v(4) by (simp add: fst_set_delete)
  have last: "rooms s (info_project_id i) = Some [w] \<longrightarrow>
              rooms s' (info_project_id i) = None \<and> presence s' (info_project_id i) = None"
    using v(1) unfolding v(3,4) by auto
  have nonempty: "\<forall>p conns. rooms s' p = Some conns \<longrightarrow> conns \<noteq> []"
    using inv' unfolding inv_rooms_def by blast
  show ?thesis using v(2) gone last nonempty by blast
qed

text \<open>
  Claim C4. In every state that calls of the manager's operations reach, no room of the
  registry has an empty connection list; and a leave of a registered connection raises
  nothing, leaves no presence entry of its participant in its room, keeps all rooms
  non-empty and, when the connection was the only one of its room, removes the room from
  both dictionaries.
\<close>

theorem rooms_never_empty:
  assumes "reachable guard s"
  shows "(\<forall>p conns. rooms s p = Some conns \<longrightarrow> conns \<noteq> []) \<and>
         (\<forall>w i. bound s w = Some i \<longrightarrow>
            (\<exists>s'. disconnect w s = (None, s') \<and>
               (\<forall>cursors. presence s' (info_project_id i) = Some cursors \<longrightarrow>
                          info_user_id i \<notin> fst ` set cursors) \<and>
               (rooms s (info_project_id i) = Some [w] \<longrightarrow>
                  rooms s' (info_project_id i) = None \<and> presence s' (info_project_id i) = None) \<and>
               (\<forall>p conns. rooms s' p = Some conns \<longrightarrow> conns \<noteq> [])))"
proof (intro conjI allI impI)
  from assms have inv: "inv_rooms s" by (rule reachable_inv_rooms)
  {
    fix p conns assume "rooms s p = Some conns"
    with inv show "conns \<noteq> []" unfolding inv_rooms_def by blast
  next
    fix w i assume "bound s w = Some i"
    with inv show "\<exists>s'. disconnect w s = (None, s') \<and>
               (\<forall>cursors. presence s' (info_project_id i) = Some cursors \<longrightarrow>
                          info_user_id i \<notin> fst ` set cursors) \<and>
               (rooms s (info_project_id i) = Some [w] \<longrightarrow>
                  rooms s' (info_project_id i) = None \<and> presence s' (info_project_id i) = None) \<and>
               (\<forall>p conns. rooms s' p = Some conns \<longrightarrow> conns \<noteq> [])"
      by (rule leave_effect)
  }
qed

theorem rooms_never_empty_witness:
  "reachable any_join alice_joined \<and> rooms alice_joined 1 = Some [11] \<and>
   (\<exists>s'. disconnect 11 alice_joined = (None, s') \<and> rooms s' 1 = None \<and> presence s' 1 = None)"
proof -
  have a: "reachable any_join alice_joined"
    unfolding alice_joined_def
    by (rule reachable_connect [OF reachable_init]) (simp add: any_join_def)
  have b: "bound alice_joined 11 = Some \<lparr>info_user_id = 1, info_username = ''alice'', info_project_id = 1\<rparr>"
    by (simp add: alice_joined_connection_users)
  have r: "rooms alice_joined 1 = Some [11]"
    by (simp add: alice_joined_active_connections)
  from rooms_never_empty [OF a, THEN conjunct2, rule_format, OF b] r
  show ?thesis using a by auto
qed

text \<open>
  Claim C1, as the code has it. Where only unregistered connections join, a presence entry
  of a room belongs to a connection that is registered for that participant and is in the
  list of that room; and leaving removes the presence entry of the leaving connection's
  participant whether or not the participant has another connection in the room. Where,
  in addition, no participant joins a room in which they already have a connection, a
  presence entry exists if and only if such a connection does.
\<close>

theorem presence_of_connections:
  "(reachable fresh_join s \<longrightarrow>
      (\<forall>p cursors uid. presence s p = Some cursors \<longrightarrow> uid \<in> fst ` set cursors \<longrightarrow>
         (\<exists>w i conns. bound s w = Some i \<and> info_project_id i = p \<and> info_user_id i = uid \<and>
                       rooms s p = Some conns \<and> w \<in> set conns)) \<and>
      (\<forall>w i. bound s w = Some i \<longrightarrow>
         (\<exists>s'. disconnect w s = (None, s') \<and>
            (\<forall>cursors. presence s' (info_project_id i) = Some cursors \<longrightarrow>
                       info_user_id i \<notin> fst ` set cursors)))) \<and>
   (reachable single_join s \<longrightarrow>
      (\<forall>p uid. (\<exists>cursors. presence s p = Some cursors \<and> uid \<in> fst ` set cursors) \<longleftrightarrow>
         (\<exists>w i conns. bound s w = Some i \<and> info_project_id i = p \<and> info_user_id i = uid \<and>
                       rooms s p = Some conns \<and> w \<in> set conns)))"
proof (intro conjI impI allI)
  fix p cursors uid
  assume r: "reachable fresh_join s" and h: "presence s p = Some cursors" "uid \<in> fst ` set cursors"
  from r have inv: "inv_rooms s" "inv_presence s" using reachable_inv_presence by blast+
  from inv(2) h obtain w i where w: "bound s w = Some i" "info_project_id i = p" "info_user_id i = uid"
    unfolding inv_presence_def by blast
  from inv(1) w(1) obtain conns where "rooms s (info_project_id i) = Some conns" "w \<in> set conns"
    unfolding inv_rooms_def by blast
  with w show "\<exists>w i conns. bound s w = Some i \<and> info_project_id i = p \<and> info_user_id i = uid \<and>
                       rooms s p = Some conns \<and> w \<in> set conns" by blast
next
  fix w i
  assume r: "reachable fresh_join s" and b: "bound s w = Some i"
  from r have "inv_rooms s" by (rule reachable_inv_rooms)
  from leave_effect [OF this b]
  show "\<exists>s'. disconnect w s = (None, s') \<and>
            (\<forall>cursors. presence s' (info_project_id i) = Some cursors \<longrightarrow>
                       info_user_id i \<notin> fst ` set cursors)" by blast
next
  fix p uid
  assume r: "reachable single_join s"
  from r have inv: "inv_rooms s" "inv_presence s" "inv_single s" using reachable_inv_single by blast+
  show "(\<exists>cursors. presence s p = Some cursors \<and> uid \<in> fst ` set cursors) \<longleftrightarrow>
         (\<exists>w i conns. bound s w = Some i \<and> info_project_id i = p \<and> info_user_id i = uid \<and>
                       rooms s p = Some conns \<and> w \<in> set conns)"
  proof
    assume "\<exists>cursors. presence s p = Some cursors \<and> uid \<in> fst ` set cursors"
    then obtain cursors where h: "presence s p = Some cursors" "uid \<in> fst ` set cursors" by blast
    from inv(2) h obtain w i where w: "bound s w = Some i" "info_project_id i = p" "info_user_id i = uid"
      unfolding inv_presence_def by blast
    from inv(1) w(1) obtain conns where "rooms s (info_project_id i) = Some conns" "w \<in> set conns"
      unfolding inv_rooms_def by blast
    with w show "\<exists>w i conns. bound s w = Some i \<and> info_project_id i = p \<and> info_user_id i = uid \<and>
                       rooms s p = Some conns \<and> w \<in> set conns" by blast
  next
    assume "\<exists>w i conns. bound s w = Some i \<and> info_project_id i = p \<and> info_user_id i = uid \<and>
                       rooms s p = Some conns \<and> w \<in> set conns"
    then obtain w i where w: "bound s w = Some i" "info_project_id i = p" "info_user_id i = uid"
      by blast
    with inv(3) show "\<exists>cursors. presence s p = Some cursors \<and> uid \<in> fst ` set cursors"
      unfolding inv_single_def by blast
  qed
qed

theorem presence_of_connections_witness:
  "reachable fresh_join both_joined \<and> reachable single_join both_joined \<and>
   presence both_joined 1 =
     Some [(1, [(''x'', JInt 0), (''y'', JInt 0), (''username'', JStr ''alice''),
                (''color'', JStr ''#4ECDC4'')]),
           (2, [(''x'', JInt 0), (''y'', JInt 0), (''username'', JStr ''bob''),
                (''color'', JStr ''#45B7D1'')])] \<and>
   (\<exists>w i conns. bound both_joined w = Some i \<and> info_project_id i = 1 \<and> info_user_id i = 2 \<and>
                 rooms both_joined 1 = Some conns \<and> w \<in> set conns) \<and>
   (\<exists>cursors. presence both_joined 1 = Some cursors \<and> 1 \<in> fst ` set cursors)"
proof -
  have p: "presence both_joined 1 =
     Some [(1, [(''x'', JInt 0), (''y'', JInt 0), (''username'', JStr ''alice''),
                (''color'', JStr ''#4ECDC4'')]),
           (2, [(''x'', JInt 0), (''y'', JInt 0), (''username'', JStr ''bob''),
                (''color'', JStr ''#45B7D1'')])]"
    by (simp add: both_joined_fields)
  have k: "(2::int) \<in> fst ` set [(1::int, [(''x'', JInt 0), (''y'', JInt 0), (''username'', JStr ''alice''),
                (''color'', JStr ''#4ECDC4'')]),
           (2, [(''x'', JInt 0), (''y'', JInt 0), (''username'', JStr ''bob''),
                (''color'', JStr ''#45B7D1'')])]"
    by simp
  have c: "\<exists>w i conns. bound both_joined w = Some i \<and> info_project_id i = 1 \<and> info_user_id i = 1 \<and>
                 rooms both_joined 1 = Some conns \<and> w \<in> set conns"
    by (rule exI [of _ 11]) (simp add: both_joined_fields)
  note t = presence_of_connections [of both_joined]
  from t [THEN conjunct1, rule_format, OF fresh_both_joined, THEN conjunct1, rule_format, OF p k]
  have bob: "\<exists>w i conns. bound both_joined w = Some i \<and> info_project_id i = 1 \<and> info_user_id i = 2 \<and>
                 rooms both_joined 1 = Some conns \<and> w \<in> set conns" .
  from t [THEN conjunct2, rule_format, OF reachable_both_joined, of 1 1] c
  have alice: "\<exists>cursors. presence both_joined 1 = Some cursors \<and> 1 \<in> fst ` set cursors"
    by blast
  from fresh_both_joined reachable_both_joined p bob alice show ?thesis by blast
qed

text \<open>
  Alice joins project 1 on connections 11 and 13 and connection 11 leaves: connection 13 is
  still registered for her and in the room, and the room has no presence entry.
\<close>

theorem presence_of_connections_counterexample:
  "reachable fresh_join alice_left_once \<and>
   connection_users alice_left_once =
     [(13, \<lparr>info_user_id = 1, info_username = ''alice'', info_project_id = 1\<rparr>)] \<and>
   active_connections alice_left_once = [(1, [13])] \<and>
   user_cursors alice_left_once = [(1, [])]"
  using fresh_alice_left_once alice_left_once_fields by simp

section \<open>Broadcasts and chat\<close>

lemma sent_disconnect: "sent (snd (disconnect w s)) = sent s"
  by (simp add: disconnect_def remove_from_active_def remove_user_cursor_def Let_def
      split: option.splits prod.splits if_splits del: map_of_eq_None_iff)

lemma sent_cleanup_loop: "sent (snd (cleanup_loop ws s)) = sent s"
proof (induction ws arbitrary: s)
  case Nil
  show ?case by simp
next
  case (Cons w ws)
  show ?case
  proof (cases "disconnect w s")
    case (Pair e s1)
    with sent_disconnect [of w s] have "sent s1 = sent s" by simp
    with Pair Cons.IH [of s1] show ?thesis by (cases e) simp_all
  qed
qed

lemma bound_disconnect:
  assumes "inv_rooms s"
  shows "bound (snd (disconnect w s)) = (bound s)(w := None)"
proof (cases "bound s w")
  case None
  then show ?thesis by (auto simp: disconnect_unregistered simp del: map_of_eq_None_iff)
next
  case (Some i)
  from assms Some obtain s' where "disconnect w s = (None, s')" "bound s' = (bound s)(w := None)"
    by (rule disconnect_view)
  then show ?thesis by simp
qed

lemma bound_cleanup_loop:
  "inv_rooms s \<Longrightarrow>
   bound (snd (cleanup_loop ws s)) = (\<lambda>w. if w \<in> set ws then None else bound s w)"
proof (induction ws arbitrary: s)
  case Nil
  show ?case by simp
next
  case (Cons w ws)
  from inv_rooms_disconnect [OF Cons.prems, of w] obtain s1 where
    s1: "disconnect w s = (None, s1)" "inv_rooms s1"
    by (cases "disconnect w s") auto
  have "bound s1 = (bound s)(w := None)"
    using bound_disconnect [OF Cons.prems, of w] s1(1) by simp
  with Cons.IH [OF s1(2)] s1(1) show ?case by (auto simp: fun_eq_iff)
qed

text \<open>
  Claim C5. A broadcast to a room writes the envelope to every connection of the room's
  list that is not the excluded one and whose write does not raise, whatever happens to
  the writes to the others. The delivery loop changes nothing but the log of delivered
  frames and returns the connections whose write raised; only then are these disconnected,
  one after the other. In a reachable state the broadcast raises nothing to its caller, and
  afterwards exactly the failed connections have lost their registration.
\<close>

theorem broadcast_isolates_failures:
  assumes "rooms s p = Some conns"
  shows "broadcast_loop fails m ex conns [] s =
           (filter (\<lambda>w. Some w \<noteq> ex \<and> fails w \<noteq> None) conns,
            s\<lparr>sent := sent s @
                 map (\<lambda>w. (w, m)) (filter (\<lambda>w. Some w \<noteq> ex \<and> fails w = None) conns)\<rparr>) \<and>
         broadcast_to_project fails p m ex s =
           cleanup_loop (filter (\<lambda>w. Some w \<noteq> ex \<and> fails w \<noteq> None) conns)
             (s\<lparr>sent := sent s @
                  map (\<lambda>w. (w, m)) (filter (\<lambda>w. Some w \<noteq> ex \<and> fails w = None) conns)\<rparr>) \<and>
         sent (snd (broadcast_to_project fails p m ex s)) =
           sent s @ map (\<lambda>w. (w, m)) (filter (\<lambda>w. Some w \<noteq> ex \<and> fails w = None) conns) \<and>
         (reachable guard s \<longrightarrow>
            fst (broadcast_to_project fails p m ex s) = None \<and>
            bound (snd (broadcast_to_project fails p m ex s)) =
              (\<lambda>w. if w \<in> set conns \<and> Some w \<noteq> ex \<and> fails w \<noteq> None then None else bound s w))"
proof (intro conjI impI)
  show "broadcast_loop fails m ex conns [] s =
           (filter (\<lambda>w. Some w \<noteq> ex \<and> fails w \<noteq> None) conns,
            s\<lparr>sent := sent s @
                 map (\<lambda>w. (w, m)) (filter (\<lambda>w. Some w \<noteq> ex \<and> fails w = None) conns)\<rparr>)"
    by (simp add: broadcast_loop_eq)
  show eq: "broadcast_to_project fails p m ex s =
           cleanup_loop (filter (\<lambda>w. Some w \<noteq> ex \<and> fails w \<noteq> None) conns)
             (s\<lparr>sent := sent s @
                  map (\<lambda>w. (w, m)) (filter (\<lambda>w. Some w \<noteq> ex \<and> fails w = None) conns)\<rparr>)"
    using assms by (simp add: broadcast_to_project_eq)
  show "sent (snd (broadcast_to_project fails p m ex s)) =
           sent s @ map (\<lambda>w. (w, m)) (filter (\<lambda>w. Some w \<noteq> ex \<and> fails w = None) conns)"
    unfolding eq by (simp add: sent_cleanup_loop)
  {
    assume "reachable guard s"
    then have inv: "inv_rooms s" by (rule reachable_inv_rooms)
    from stable_broadcast [OF stable_rooms inv]
    show "fst (broadcast_to_project fails p m ex s) = None" by simp
    show "bound (snd (broadcast_to_project fails p m ex s)) =
              (\<lambda>w. if w \<in> set conns \<and> Some w \<noteq> ex \<and> fails w \<noteq> None then None else bound s w)"
      unfolding eq using inv by (simp add: bound_cleanup_loop cong: if_cong)
  }
qed

theorem broadcast_isolates_failures_witness:
  "reachable single_join both_joined \<and> rooms both_joined 1 = Some [11, 12] \<and>
   fst (broadcast_to_project broken11 1 (JStr ''hello'') None both_joined) = None \<and>
   sent (snd (broadcast_to_project broken11 1 (JStr ''hello'') None both_joined)) =
     sent both_joined @ [(12, JStr ''hello'')] \<and>
   bound (snd (broadcast_to_project broken11 1 (JStr ''hello'') None both_joined)) 11 = None"
proof -
  have r: "rooms both_joined 1 = Some [11, 12]" by (simp add: both_joined_fields)
  note t = broadcast_isolates_failures [OF r, of broken11 "JStr ''hello''" None single_join]
  from t [THEN conjunct2, THEN conjunct2, THEN conjunct1] have frames:
    "sent (snd (broadcast_to_project broken11 1 (JStr ''hello'') None both_joined)) =
       sent both_joined @ [(12, JStr ''hello'')]"
    by (simp add: broken11_def)
  from t [THEN conjunct2, THEN conjunct2, THEN conjunct2] reachable_both_joined have
    quiet: "fst (broadcast_to_project broken11 1 (JStr ''hello'') None both_joined) = None"
    and left: "bound (snd (broadcast_to_project broken11 1 (JStr ''hello'') None both_joined)) =
      (\<lambda>w. if w \<in> set [11, 12] \<and> Some w \<noteq> None \<and> broken11 w \<noteq> None then None
           else bound both_joined w)"
    by blast+
  have "bound (snd (broadcast_to_project broken11 1 (JStr ''hello'') None both_joined)) 11 = None"
    unfolding left by (simp add: broken11_def)
  with reachable_both_joined r frames quiet show ?thesis by blast
qed

text \<open>
  Claim C8. In a reachable state, a chat message from a registered connection is written
  to every connection of the sender's room whose write succeeds, the sender's own among
  them, and raises nothing. The envelope's \<open>user_id\<close> and \<open>username\<close> are those bound
  to the connection; whatever two payloads are sent, the frames carry the same identity,
  and two payloads with the same \<open>message\<close> and \<open>timestamp\<close> give the same frames.
\<close>

theorem chat_message_identity:
  assumes "reachable guard s" and "bound s w = Some i"
  shows "\<exists>conns. rooms s (info_project_id i) = Some conns \<and> w \<in> set conns \<and>
           fst (handle_chat_message fails w data s) = None \<and>
           sent (snd (handle_chat_message fails w data s)) =
             sent s @
             map (\<lambda>w'. (w', JObj [(''type'', JStr ''chat_message''),
                                   (''user_id'', JInt (info_user_id i)),
                                   (''username'', JStr (info_username i)),
                                   (''message'', dict_get data ''message'' (JStr '''')),
                                   (''timestamp'', dict_get data ''timestamp'' JNull)]))
               (filter (\<lambda>w'. fails w' = None) conns) \<and>
           map (\<lambda>(w', m). (w', identity_of m)) (sent (snd (handle_chat_message fails w data' s))) =
             map (\<lambda>(w', m). (w', identity_of m)) (sent (snd (handle_chat_message fails w data s))) \<and>
           (map_of data' ''message'' = map_of data ''message'' \<and>
            map_of data' ''timestamp'' = map_of data ''timestamp'' \<longrightarrow>
              sent (snd (handle_chat_message fails w data' s)) =
              sent (snd (handle_chat_message fails w data s)))"
proof -
  from assms(1) have inv: "inv_rooms s" by (rule reachable_inv_rooms)
  from inv assms(2) obtain conns where c: "rooms s (info_project_id i) = Some conns" "w \<in> set conns"
    unfolding inv_rooms_def by blast
  have none: "fst (handle_chat_message fails w data s) = None"
    using stable_broadcast [OF stable_rooms inv] assms(2) by (simp add: handle_chat_message_def)
  have frames: "sent (snd (handle_chat_message fails w d s)) =
             sent s @ map (\<lambda>w'. (w', chat_message i d)) (filter (\<lambda>w'. fails w' = None) conns)" for d
    using assms(2) c(1)
    by (simp add: handle_chat_message_def broadcast_to_project_eq sent_cleanup_loop)
  have ident: "identity_of (chat_message i d) =
                 (Some (JInt (info_user_id i)), Some (JStr (info_username i)))" for d
    by (simp add: identity_of_def chat_message_def)
  have same: "map_of data' ''message'' = map_of data ''message'' \<and>
            map_of data' ''timestamp'' = map_of data ''timestamp'' \<longrightarrow>
            chat_message i data' = chat_message i data"
    by (simp add: chat_message_def dict_get_def)
  show ?thesis
    using c none frames [of data] frames [of data'] same
    by (auto simp: chat_message_def [of i data, symmetric] ident comp_def)
qed

theorem chat_message_identity_witness:
  "reachable single_join both_joined \<and>
   sent (snd (handle_chat_message delivers 12
                [(''type'', JStr ''chat_message''), (''message'', JStr ''hi''),
                 (''user_id'', JInt 1), (''username'', JStr ''alice'')] both_joined)) =
     sent both_joined @
       [(11, JObj [(''type'', JStr ''chat_message''), (''user_id'', JInt 2),
                   (''username'', JStr ''bob''), (''message'', JStr ''hi''), (''timestamp'', JNull)]),
        (12, JObj [(''type'', JStr ''chat_message''), (''user_id'', JInt 2),
                   (''username'', JStr ''bob''), (''message'', JStr ''hi''), (''timestamp'', JNull)])]"
proof -
  have b: "bound both_joined 12 = Some \<lparr>info_user_id = 2, info_username = ''bob'', info_project_id = 1\<rparr>"
    by (simp add: both_joined_fields)
  from chat_message_identity [OF reachable_both_joined b, of delivers
      "[(''type'', JStr ''chat_message''), (''message'', JStr ''hi''),
        (''user_id'', JInt 1), (''username'', JStr ''alice'')]" "[]"]
  show ?thesis using reachable_both_joined
    by (auto simp: both_joined_fields delivers_def dict_get_def)
qed

section \<open>Cursor updates\<close>





section \<open>Unknown and malformed frames\<close>

text \<open>
  Claim C2, as the code has it. A frame that decodes to a JSON object whose \<open>type\<close> is
  absent or none of the four known ones is answered, when the write to the sender
  succeeds, with exactly one error envelope to the sender; nothing else is written, the
  manager's dictionaries are unchanged and the connection stays in its receive loop. A
  frame that is not JSON, or decodes to something that is not an object, ends the loop:
  nothing is written, the state is unchanged, and the endpoint closes the connection.
\<close>

theorem unknown_type_answered:
  "(fails w = None \<and>
    dict_get message ''type'' JNull \<notin>
      {JStr ''cursor_update'', JStr ''timeline_update'', JStr ''chat_message'', JStr ''ping''} \<longrightarrow>
      receive_round fmt fails w (ReceiveText (Some (JObj message))) s =
        (Receiving,
         s\<lparr>sent := sent s @
            [(w, JObj [(''type'', JStr ''error''),
                       (''message'', JStr (''Unknown message type: '' @
                                           fmt (dict_get message ''type'' JNull)))])]\<rparr>)) \<and>
   receive_round fmt fails w (ReceiveText None) s = (Closed, s) \<and>
   (case other of
      JObj payload \<Rightarrow> True
    | _ \<Rightarrow> receive_round fmt fails w (ReceiveText (Some other)) s = (Closed, s))"
proof (intro conjI impI)
  assume "fails w = None \<and>
    dict_get message ''type'' JNull \<notin>
      {JStr ''cursor_update'', JStr ''timeline_update'', JStr ''chat_message'', JStr ''ping''}"
  then show "receive_round fmt fails w (ReceiveText (Some (JObj message))) s =
        (Receiving,
         s\<lparr>sent := sent s @
            [(w, JObj [(''type'', JStr ''error''),
                       (''message'', JStr (''Unknown message type: '' @
                                           fmt (dict_get message ''type'' JNull)))])]\<rparr>)"
    by (simp add: receive_round_def loop_body_def handle_websocket_message_def dispatch_def
        send_text_def unknown_type_error_def Let_def)
next
  show "receive_round fmt fails w (ReceiveText None) s = (Closed, s)"
    by (simp add: receive_round_def loop_body_def)
next
  show "case other of
      JObj payload \<Rightarrow> True
    | _ \<Rightarrow> receive_round fmt fails w (ReceiveText (Some other)) s = (Closed, s)"
    by (cases other) (simp_all add: receive_round_def loop_body_def handle_websocket_message_def)
qed

theorem unknown_type_answered_witness:
  "\<forall>fmt. receive_round fmt delivers 11
     (ReceiveText (Some (JObj [(''type'', JStr ''resize''), (''x'', JInt 3)]))) both_joined =
     (Receiving,
      both_joined\<lparr>sent := sent both_joined @
         [(11, JObj [(''type'', JStr ''error''),
                     (''message'', JStr (''Unknown message type: '' @ fmt (JStr ''resize'')))])]\<rparr>)"
proof
  fix fmt
  have h: "delivers 11 = None \<and>
     dict_get [(''type'', JStr ''resize''), (''x'', JInt 3)] ''type'' JNull \<notin>
       {JStr ''cursor_update'', JStr ''timeline_update'', JStr ''chat_message'', JStr ''ping''}"
    by (simp add: delivers_def dict_get_def)
  have t: "dict_get [(''type'', JStr ''resize''), (''x'', JInt 3)] ''type'' JNull = JStr ''resize''"
    by (simp add: dict_get_def)
  from unknown_type_answered [of delivers 11 "[(''type'', JStr ''resize''), (''x'', JInt 3)]"
      fmt both_joined, THEN conjunct1, rule_format, OF h]
  show "receive_round fmt delivers 11
     (ReceiveText (Some (JObj [(''type'', JStr ''resize''), (''x'', JInt 3)]))) both_joined =
     (Receiving,
      both_joined\<lparr>sent := sent both_joined @
         [(11, JObj [(''type'', JStr ''error''),
                     (''message'', JStr (''Unknown message type: '' @ fmt (JStr ''resize'')))])]\<rparr>)"
    unfolding t .
qed

text \<open>
  Connection 11 is registered and its writes succeed; it sends a frame that is not JSON.
  Whatever text Python's \<open>str\<close> gives, no error envelope is written and the connection
  is closed.
\<close>

theorem unknown_type_answered_counterexample:
  "bound both_joined 11 = Some \<lparr>info_user_id = 1, info_username = ''alice'', info_project_id = 1\<rparr> \<and>
   delivers 11 = None \<and>
   (\<forall>fmt. receive_round fmt delivers 11 (ReceiveText None) both_joined = (Closed, both_joined))"
  by (simp add: both_joined_fields delivers_def receive_round_def loop_body_def)

section \<open>The snapshot sent on joining\<close>

lemma active_users_Some:
  "\<forall>e \<in> set cursors. ''username'' \<in> fst ` set (snd e) \<Longrightarrow>
   active_users cursors =
     Some (map (\<lambda>e. JObj [(''id'', JInt (fst e)), (''username'', dict_get (snd e) ''username'' JNull),
                           (''cursor'', JObj (snd e))]) cursors)"
proof (induction cursors)
  case Nil
  show ?case by simp
next
  case (Cons e cursors)
  obtain uid c where e: "e = (uid, c)" by (cases e)
  from Cons.prems e have "''username'' \<in> fst ` set c" by simp
  then obtain name where "map_of c ''username'' = Some name"
    by (metis map_of_eq_None_iff not_Some_eq)
  with Cons e show ?case by (simp add: dict_get_def)
qed

text \<open>
  Claim C6, as the code has it. Where every join is of an unregistered connection whose
  participant has no connection in the room yet, a joining connection that has not been
  accepted before, so that the handshake of \<open>connect\<close> succeeds, and whose write succeeds
  is sent, after the \<open>user_joined\<close> frames to the others, one \<open>project_state\<close> envelope.
  Its \<open>active_users\<close> has one entry \<open>{id, username, cursor}\<close> for each entry of the
  room's presence map: no id twice, the ids are exactly those of the participants with a
  connection registered in the room once the join is done (the connections whose write
  raised during the join are gone by then), the joiner is among them, and each cursor has
  \<open>x\<close>, \<open>y\<close>, \<open>username\<close> and \<open>color\<close>.
\<close>

theorem project_state_lists_participants:
  assumes r: "reachable single_join s" and g: "single_join s w p u" and ok: "fails w = None"
    and fresh_socket: "w \<notin> set (accepted s)"
  shows "\<exists>s' cursors.
           connect fails w p u s = (None, s') \<and> presence s' p = Some cursors \<and>
           sent s' =
             sent s @
             map (\<lambda>w'. (w', user_joined u (initial_cursor u)))
               (filter (\<lambda>w'. w' \<noteq> w \<and> fails w' = None)
                  (case rooms s p of None \<Rightarrow> [] | Some c \<Rightarrow> c)) @
             [(w, JObj [(''type'', JStr ''project_state''),
                        (''active_users'',
                         JArr (map (\<lambda>e. JObj [(''id'', JInt (fst e)),
                                               (''username'', dict_get (snd e) ''username'' JNull),
                                               (''cursor'', JObj (snd e))]) cursors))])] \<and>
           distinct (map fst cursors) \<and>
           fst ` set cursors =
             {info_user_id i | w' i. bound s' w' = Some i \<and> info_project_id i = p} \<and>
           usr_id u \<in> fst ` set cursors \<and>
           (\<forall>e \<in> set cursors. {''x'', ''y'', ''username'', ''color''} \<subseteq> fst ` set (snd e))"
proof -
  let ?info = "\<lparr>info_user_id = usr_id u, info_username = usr_username u, info_project_id = p\<rparr>"
  let ?conns = "case rooms s p of None \<Rightarrow> [] | Some c \<Rightarrow> c"
  let ?m = "user_joined u (initial_cursor u)"
  let ?s0 = "s\<lparr>accepted := accepted s @ [w]\<rparr>"
  from fresh_socket have a: "accept w s = (None, ?s0)" by (simp add: accept_def)
  from r have "inv_rooms s" "inv_presence s" "inv_single s"
    using reachable_inv_single by blast+
  then have inv: "inv_rooms ?s0" "inv_presence ?s0" "inv_single ?s0" by simp_all
  from r have "inv_cursors s" using reachable_inv_cursors by blast
  then have cu: "inv_cursors ?s0" by simp
  from g have g0: "single_join ?s0 w p u" by simp
  from g have fresh: "bound ?s0 w = None" by (simp add: single_join_def)
  from inv(1) obtain s1 where v0: "register w p u ?s0 = (None, s1)" "sent s1 = sent ?s0"
    "bound s1 = (bound ?s0)(w \<mapsto> ?info)"
    "rooms s1 = (rooms ?s0)(p \<mapsto> (case rooms ?s0 p of None \<Rightarrow> [] | Some c \<Rightarrow> c) @ [w])"
    by (rule register_view)
  from v0 have v: "register w p u ?s0 = (None, s1)" "sent s1 = sent s"
    "bound s1 = (bound s)(w \<mapsto> ?info)"
    "rooms s1 = (rooms s)(p \<mapsto> ?conns @ [w])"
    by simp_all
  have inv1: "inv_rooms s1 \<and> inv_presence s1 \<and> inv_single s1"
    using inv_rooms_register [OF inv(1), of w p u] inv_presence_register [OF inv(1,2) fresh, of p u]
      inv_single_register [OF inv(1,3) g0] v(1) by simp
  have cu1: "inv_rooms s1 \<and> inv_cursors s1"
    using inv1 inv_cursors_register [OF inv(1) cu, of w p u] v(1) by simp
  let ?b = "broadcast_to_project fails p ?m (Some w) s1"
  obtain e s2 where b: "?b = (e, s2)" by (cases ?b)
  have e: "e = None" and inv2: "inv_rooms s2" "inv_presence s2" "inv_single s2"
    using stable_broadcast [OF stable_single inv1, of fails p ?m "Some w"] b by simp_all
  have cu2: "inv_cursors s2"
    using stable_broadcast [OF stable_cursors cu1, of fails p ?m "Some w"] b by simp
  have r1: "rooms s1 p = Some (?conns @ [w])" unfolding v(4) by simp
  have beq: "?b = cleanup_loop (filter (\<lambda>w'. Some w' \<noteq> Some w \<and> fails w' \<noteq> None) (?conns @ [w]))
               (s1\<lparr>sent := sent s1 @ map (\<lambda>w'. (w', ?m))
                    (filter (\<lambda>w'. Some w' \<noteq> Some w \<and> fails w' = None) (?conns @ [w]))\<rparr>)"
    unfolding broadcast_to_project_eq using r1 by simp
  have sent2: "sent s2 = sent s @ map (\<lambda>w'. (w', ?m)) (filter (\<lambda>w'. w' \<noteq> w \<and> fails w' = None) ?conns)"
    using b beq v(2) sent_cleanup_loop
      [of "filter (\<lambda>w'. Some w' \<noteq> Some w \<and> fails w' \<noteq> None) (?conns @ [w])"
          "s1\<lparr>sent := sent s1 @ map (\<lambda>w'. (w', ?m))
                    (filter (\<lambda>w'. Some w' \<noteq> Some w \<and> fails w' = None) (?conns @ [w]))\<rparr>"]
    by simp
  have "bound s2 = (\<lambda>w'. if w' \<in> set (filter (\<lambda>w'. Some w' \<noteq> Some w \<and> fails w' \<noteq> None) (?conns @ [w]))
                         then None else bound s1 w')"
    using b beq bound_cleanup_loop
      [of "s1\<lparr>sent := sent s1 @ map (\<lambda>w'. (w', ?m))
                    (filter (\<lambda>w'. Some w' \<noteq> Some w \<and> fails w' = None) (?conns @ [w]))\<rparr>"
          "filter (\<lambda>w'. Some w' \<noteq> Some w \<and> fails w' \<noteq> None) (?conns @ [w])"] inv1
    by (simp cong: if_cong)
  then have bw: "bound s2 w = Some ?info" unfolding v(3) by simp
  have "\<exists>cursors. presence s2 (info_project_id ?info) = Some cursors \<and>
                  info_user_id ?info \<in> fst ` set cursors"
    using inv2(3) bw unfolding inv_single_def by blast
  then obtain cursors where c: "presence s2 p = Some cursors" "usr_id u \<in> fst ` set cursors"
    by auto
  have shape: "\<forall>e \<in> set cursors. {''x'', ''y'', ''username'', ''color''} \<subseteq> fst ` set (snd e)"
  proof
    fix e assume "e \<in> set cursors"
    then have "(fst e, snd e) \<in> set cursors" by simp
    with cu2 c(1) show "{''x'', ''y'', ''username'', ''color''} \<subseteq> fst ` set (snd e)"
      unfolding inv_cursors_def by blast
  qed
  then have "\<forall>e \<in> set cursors. ''username'' \<in> fst ` set (snd e)" by blast
  then have users: "active_users cursors =
     Some (map (\<lambda>e. JObj [(''id'', JInt (fst e)), (''username'', dict_get (snd e) ''username'' JNull),
                           (''cursor'', JObj (snd e))]) cursors)"
    by (rule active_users_Some)
  let ?users = "map (\<lambda>e. JObj [(''id'', JInt (fst e)), (''username'', dict_get (snd e) ''username'' JNull),
                           (''cursor'', JObj (snd e))]) cursors"
  let ?s' = "s2\<lparr>sent := sent s2 @ [(w, project_state ?users)]\<rparr>"
  have res: "connect fails w p u s = (None, ?s')"
    using a v(1) b e c(1) users ok
    by (simp add: connect_def send_personal_message_def send_text_def del: map_of_eq_None_iff)
  have dist: "distinct (map fst cursors)"
    using inv2(1) c(1) unfolding inv_rooms_def by blast
  have keys: "fst ` set cursors = {info_user_id i | w' i. bound ?s' w' = Some i \<and> info_project_id i = p}"
  proof (intro set_eqI iffI)
    fix uid assume "uid \<in> fst ` set cursors"
    with inv2(2) c(1) obtain w' i where "bound s2 w' = Some i" "info_project_id i = p" "info_user_id i = uid"
      unfolding inv_presence_def by blast
    then show "uid \<in> {info_user_id i | w' i. bound ?s' w' = Some i \<and> info_project_id i = p}"
      by auto
  next
    fix uid assume "uid \<in> {info_user_id i | w' i. bound ?s' w' = Some i \<and> info_project_id i = p}"
    then obtain w' i where i: "bound s2 w' = Some i" "info_project_id i = p" "info_user_id i = uid"
      by auto
    with inv2(3) obtain cs where "presence s2 (info_project_id i) = Some cs" "info_user_id i \<in> fst ` set cs"
      unfolding inv_single_def by blast
    with i c(1) show "uid \<in> fst ` set cursors" by simp
  qed
  have pres: "presence ?s' p = Some cursors" using c(1) by simp
  have sent': "sent ?s' = sent s @ map (\<lambda>w'. (w', ?m)) (filter (\<lambda>w'. w' \<noteq> w \<and> fails w' = None) ?conns) @
        [(w, JObj [(''type'', JStr ''project_state''), (''active_users'', JArr ?users)])]"
    using sent2 by (simp add: project_state_def)
  from res pres sent' dist keys c(2) shape show ?thesis by blast
qed

theorem project_state_lists_participants_witness:
  "reachable single_join alice_joined \<and> single_join alice_joined 12 1 bob \<and> delivers 12 = None \<and>
   12 \<notin> set (accepted alice_joined) \<and>
   (\<exists>s' cursors.
      connect delivers 12 1 bob alice_joined = (None, s') \<and> presence s' 1 = Some cursors \<and>
      distinct (map fst cursors) \<and>
      fst ` set cursors = {info_user_id i | w' i. bound s' w' = Some i \<and> info_project_id i = 1} \<and>
      usr_id bob \<in> fst ` set cursors)"
proof -
  have g: "single_join alice_joined 12 1 bob"
    by (simp add: single_join_def alice_joined_connection_users bob_def)
  have ok: "delivers 12 = None" by (simp add: delivers_def)
  have fresh_socket: "12 \<notin> set (accepted alice_joined)" by (simp add: alice_joined_accepted)
  from project_state_lists_participants [of alice_joined 12 1 bob delivers]
    reachable_alice_joined g ok fresh_socket
  show ?thesis by blast
qed

text \<open>
  Alice joins project 1 on connections 11 and 13 and connection 11 leaves; then Bob joins on
  connection 12, every write succeeding. Alice is still connected on 13, registered and in
  the room, and is told of Bob; the \<open>project_state\<close> that Bob receives lists Bob alone.
\<close>

theorem project_state_lists_participants_counterexample:
  "reachable fresh_join alice_left_once \<and>
   fst (connect delivers 12 1 bob alice_left_once) = None \<and>
   sent (snd (connect delivers 12 1 bob alice_left_once)) =
     sent alice_left_once @
       [(13, JObj [(''type'', JStr ''user_joined''),
                   (''user'', JObj [(''id'', JInt 2), (''username'', JStr ''bob''),
                                    (''cursor'', JObj [(''x'', JInt 0), (''y'', JInt 0),
                                                       (''username'', JStr ''bob''),
                                                       (''color'', JStr ''#45B7D1'')])])]),
        (12, JObj [(''type'', JStr ''project_state''),
                   (''active_users'',
                    JArr [JObj [(''id'', JInt 2), (''username'', JStr ''bob''),
                                (''cursor'', JObj [(''x'', JInt 0), (''y'', JInt 0),
                                                   (''username'', JStr ''bob''),
                                                   (''color'', JStr ''#45B7D1'')])]])])] \<and>
   connection_users (snd (connect delivers 12 1 bob alice_left_once)) =
     [(13, \<lparr>info_user_id = 1, info_username = ''alice'', info_project_id = 1\<rparr>),
      (12, \<lparr>info_user_id = 2, info_username = ''bob'', info_project_id = 1\<rparr>)] \<and>
   active_connections (snd (connect delivers 12 1 bob alice_left_once)) = [(1, [13, 12])]"
  using fresh_alice_left_once
  by (simp add: connect_def accept_def register_def broadcast_to_project_def send_personal_message_def
      send_text_def delivers_def bob_def initial_cursor_def user_joined_def project_state_def
      generate_user_color_def colors_def Let_def alice_left_once_fields)

section \<open>Joining through the endpoint\<close>

text \<open>
  The endpoint accepts the connection and then calls \<open>connect\<close>, which accepts it once
  more. So whatever the token, the environment and the state, a connection that comes
  through the endpoint is closed before its loop starts, and none of the manager's
  dictionaries is changed.
\<close>

lemma endpoint_join_closes:
  "fst (endpoint_join validate fails w p token s) = Closed \<and>
   active_connections (snd (endpoint_join validate fails w p token s)) = active_connections s \<and>
   connection_users (snd (endpoint_join validate fails w p token s)) = connection_users s \<and>
   user_cursors (snd (endpoint_join validate fails w p token s)) = user_cursors s"
proof (cases "w \<in> set (accepted s)")
  case True
  then show ?thesis by (simp add: endpoint_join_def accept_def)
next
  case False
  let ?s1 = "s\<lparr>accepted := accepted s @ [w]\<rparr>"
  have refused: "connect fails w p u ?s1 = (Some RuntimeError, ?s1)" for u
    by (rule connect_refused) simp
  from False show ?thesis
    by (simp add: endpoint_join_def accept_def refused send_text_def
        split: option.splits)
qed

end
